theory Spec2Isabelle
  imports Main
begin

section \<open>Python values used by the scraper\<close>

text \<open>
  The development embeds the South Carolina bill scraper (\<^verbatim>\<open>scrapers/sc/bills.py\<close>).
  Text taken from HTML pages (a Python \<^verbatim>\<open>str\<close>) is a \<^typ>\<open>string\<close>, one \<^typ>\<open>char\<close>
  per code point, which covers the code points U+0000 to U+00FF. The bytes of a converted
  roll-call document are a \<^typ>\<open>string\<close> as well (one \<^typ>\<open>char\<close> per byte), and the text
  decoded from them is a list of code points (\<^typ>\<open>nat list\<close>), since UTF-8 reaches
  beyond U+00FF.
\<close>

datatype error =
    ValueError string
  | AssertionError
  | TypeError
  | AttributeError
  | IndexError
  | UnicodeDecodeError
  | External string

text \<open>\<^verbatim>\<open>s.startswith(p)\<close>\<close>

fun startswith :: "'a list \<Rightarrow> 'a list \<Rightarrow> bool" where
  "startswith s [] = True"
| "startswith [] (p # ps) = False"
| "startswith (c # cs) (p # ps) = (c = p \<and> startswith cs ps)"

text \<open>\<^verbatim>\<open>p in s\<close> on strings: \<open>p\<close> occurs in \<open>s\<close> as a contiguous substring.\<close>

fun contains :: "'a list \<Rightarrow> 'a list \<Rightarrow> bool" where
  "contains [] p = (p = [])"
| "contains (c # cs) p = (startswith (c # cs) p \<or> contains cs p)"

text \<open>
  \<^verbatim>\<open>s.lower()\<close> on the code points below U+0100: the letters A to Z and the Latin-1
  capitals U+00C0 to U+00DE (without the multiplication sign U+00D7) move up by 32, every
  other code point stays.
\<close>

definition lower_char :: "char \<Rightarrow> char" where
  "lower_char c =
     (let n = (of_char c :: nat)
      in if (65 \<le> n \<and> n \<le> 90) \<or> (192 \<le> n \<and> n \<le> 214) \<or> (216 \<le> n \<and> n \<le> 222)
         then char_of (n + 32) else c)"

definition lower :: "string \<Rightarrow> string" where
  "lower s = map lower_char s"

section \<open>Action classifier\<close>

text \<open>
  A rule of the table carries either one tag (a Python string) or several (a Python list).
\<close>

datatype atype = Tag string | Tags "string list"

definition classifiers :: "(string \<times> atype) list" where
  "classifiers =
    [ (''Adopted'', Tag ''passage''),
      (''Amended and adopted'', Tags [''passage'', ''amendment-passage'']),
      (''Amended'', Tag ''amendment-passage''),
      (''Certain items vetoed'', Tag ''executive-veto-line-item''),
      (''Committed to'', Tag ''referral-committee''),
      (''Committee Amendment Adopted'', Tag ''amendment-passage''),
      (''Committee Amendment Amended and Adopted'',
         Tags [''amendment-passage'', ''amendment-amendment'']),
      (''Committee Amendment Amended'', Tag ''amendment-amendment''),
      (''Committee Amendment Tabled'', Tag ''amendment-deferral''),
      (''Committee report: Favorable'', Tag ''committee-passage-favorable''),
      (''Committee report: Majority favorable'', Tag ''committee-passage''),
      (''House amendment amended'', Tag ''amendment-amendment''),
      (''Introduced and adopted'', Tags [''introduction'', ''passage'']),
      (''Introduced, adopted'', Tags [''introduction'', ''passage'']),
      (''Introduced and read first time'', Tags [''introduction'', ''reading-1'']),
      (''Introduced, read first time'', Tags [''introduction'', ''reading-1'']),
      (''Introduced'', Tag ''introduction''),
      (''Prefiled'', Tag ''filing''),
      (''Read second time'', Tag ''reading-2''),
      (''Read third time'', Tags [''passage'', ''reading-3'']),
      (''Recommitted to Committee'', Tag ''referral-committee''),
      (''Referred to Committee'', Tag ''referral-committee''),
      (''Rejected'', Tag ''failure''),
      (''Senate amendment amended'', Tag ''amendment-amendment''),
      (''Signed by governor'', Tag ''executive-signature''),
      (''Signed by Governor'', Tag ''executive-signature''),
      (''Tabled'', Tag ''failure''),
      (''Veto overridden'', Tag ''veto-override-passage''),
      (''Veto sustained'', Tag ''veto-override-failure''),
      (''Vetoed by Governor'', Tag ''executive-veto'') ]"

text \<open>The \<^verbatim>\<open>for prefix, atype in classifiers\<close> loop; \<open>None\<close> is Python's \<^verbatim>\<open>None\<close>.\<close>

fun action_type_loop :: "(string \<times> atype) list \<Rightarrow> string \<Rightarrow> atype option" where
  "action_type_loop [] action = None"
| "action_type_loop ((prefix, atype) # rest) action =
     (if startswith (lower action) (lower prefix) then Some atype
      else action_type_loop rest action)"

definition action_type :: "string \<Rightarrow> atype option" where
  "action_type action = action_type_loop classifiers action"

section \<open>Index page resolver\<close>

text \<open>
  The dictionary literal of \<^verbatim>\<open>get_index_url\<close>, in source order; \<open>map_of\<close> is the lookup
  \<^verbatim>\<open>web_archive_ids.get(key, None)\<close>.
\<close>

definition web_archive_ids :: "(string \<times> string) list" where
  "web_archive_ids =
    [ (''2017-2018-lower'', ''20181101144929''),
      (''2017-2018-upper'', ''20181101144422''),
      (''2019-2020-lower'', ''20201101155143''),
      (''2019-2020-upper'', ''20201101152857''),
      (''2021-2022-lower'', ''20221110101038''),
      (''2021-2022-upper'', ''20221110101352'') ]"

text \<open>
  \<^verbatim>\<open>if web_archive_id:\<close> is Python truthiness: \<^verbatim>\<open>None\<close> and the empty string are both
  false.
\<close>

definition get_index_url :: "string \<Rightarrow> string \<Rightarrow> string \<Rightarrow> string" where
  "get_index_url session chamber chamber_letter =
     (let index_url = ''https://www.scstatehouse.gov/sessphp/'' @ chamber_letter @ ''intros.php'';
          web_archive_id = map_of web_archive_ids (session @ ''-'' @ chamber)
      in case web_archive_id of
           None \<Rightarrow> index_url
         | Some wid \<Rightarrow>
             if wid = [] then index_url
             else (let web_arch_prepend = ''https://web.archive.org/web/'' @ wid
                   in web_arch_prepend @ ''/'' @ index_url))"

section \<open>Bill type of a detail page\<close>

text \<open>
  The \<^verbatim>\<open>if\<close>/\<^verbatim>\<open>elif\<close> chain of \<^verbatim>\<open>scrape_details\<close> that turns the header label into the
  bill's classification, or raises \<^verbatim>\<open>ValueError\<close>.
\<close>

definition scrape_details_bill_type :: "string \<Rightarrow> error + string" where
  "scrape_details_bill_type bill_type =
     (if contains bill_type ''General Bill'' then Inr ''bill''
      else if contains bill_type ''Concurrent Resolution'' then Inr ''concurrent resolution''
      else if contains bill_type ''Joint Resolution'' then Inr ''joint resolution''
      else if contains bill_type ''Resolution'' then Inr ''resolution''
      else Inl (ValueError (''unknown bill type: '' @ bill_type)))"

section \<open>The protocol downgrade around a request\<close>

text \<open>
  The two class attributes of \<^verbatim>\<open>http.client.HTTPConnection\<close> that the module mutates are
  the process-wide state. \<open>saved\<close> holds \<^verbatim>\<open>_HTTP_VSN\<close> and \<^verbatim>\<open>_HTTP_VSN_STR\<close>, read once
  when the module is imported.
\<close>

record http_client =
  http_vsn :: int
  http_vsn_str :: string

definition downgrade_http_version :: "http_client \<Rightarrow> http_client" where
  "downgrade_http_version c = c\<lparr>http_vsn := 10, http_vsn_str := ''HTTP/1.0''\<rparr>"

definition undo_downgrade_http_version :: "http_client \<Rightarrow> http_client \<Rightarrow> http_client" where
  "undo_downgrade_http_version saved c =
     c\<lparr>http_vsn := http_vsn saved, http_vsn_str := http_vsn_str saved\<rparr>"

text \<open>
  The wrapped method runs on the process state and either returns a response or raises.
  The wrapper has no exception handler: when the method raises, the exception leaves
  the wrapper before \<^verbatim>\<open>undo_downgrade_http_version\<close> is reached.
\<close>

definition toggle_http_version ::
  "http_client \<Rightarrow> (http_client \<Rightarrow> (error + 'r) \<times> http_client) \<Rightarrow> http_client
     \<Rightarrow> (error + 'r) \<times> http_client" where
  "toggle_http_version saved method c =
     (let c1 = downgrade_http_version c;
          (r, c2) = method c1
      in case r of
           Inl e \<Rightarrow> (Inl e, c2)
         | Inr response \<Rightarrow> (Inr response, undo_downgrade_http_version saved c2))"

text \<open>
  \<^verbatim>\<open>downgraded_http_get\<close> and \<^verbatim>\<open>downgraded_http_post\<close> are the scraper's \<^verbatim>\<open>get\<close> and
  \<^verbatim>\<open>post\<close> under the decorator; the request itself is the collaborator \<open>get\<close> or \<open>post\<close>.
\<close>

definition downgraded_http_get ::
  "http_client \<Rightarrow> (string \<Rightarrow> http_client \<Rightarrow> (error + 'r) \<times> http_client) \<Rightarrow> string
     \<Rightarrow> http_client \<Rightarrow> (error + 'r) \<times> http_client" where
  "downgraded_http_get saved get url = toggle_http_version saved (get url)"

definition downgraded_http_post ::
  "http_client \<Rightarrow> (string \<Rightarrow> http_client \<Rightarrow> (error + 'r) \<times> http_client) \<Rightarrow> string
     \<Rightarrow> http_client \<Rightarrow> (error + 'r) \<times> http_client" where
  "downgraded_http_post saved post url = toggle_http_version saved (post url)"

section \<open>Roll-call roster parser\<close>

subsection \<open>Bytes, decoding and whitespace\<close>

text \<open>A string literal of the program as decoded text.\<close>

definition ustr :: "string \<Rightarrow> nat list" where
  "ustr s = map of_char s"

text \<open>\<^verbatim>\<open>pdflines.split(b"\n")\<close>: the pieces between separators, empty pieces kept.\<close>

fun split_on :: "'a \<Rightarrow> 'a list \<Rightarrow> 'a list list" where
  "split_on d [] = [[]]"
| "split_on d (c # cs) =
     (if c = d then [] # split_on d cs
      else (case split_on d cs of [] \<Rightarrow> [[c]] | w # ws \<Rightarrow> (c # w) # ws))"

text \<open>\<^verbatim>\<open>bytes.strip()\<close> removes the six ASCII whitespace bytes from both ends.\<close>

definition is_bspace :: "char \<Rightarrow> bool" where
  "is_bspace c = (let n = (of_char c :: nat) in (9 \<le> n \<and> n \<le> 13) \<or> n = 32)"

definition bstrip :: "string \<Rightarrow> string" where
  "bstrip b = rev (dropWhile is_bspace (rev (dropWhile is_bspace b)))"

text \<open>
  \<^verbatim>\<open>bytes.decode()\<close> is strict UTF-8: no overlong forms, no surrogates, nothing above
  U+10FFFF; \<open>None\<close> is \<^verbatim>\<open>UnicodeDecodeError\<close>. \<open>utf8_lo\<close> and \<open>utf8_hi\<close> bound the second
  byte of a sequence by its first.
\<close>

definition utf8_lo :: "nat \<Rightarrow> nat" where
  "utf8_lo b = (if b = 224 then 160 else if b = 240 then 144 else 128)"

definition utf8_hi :: "nat \<Rightarrow> nat" where
  "utf8_hi b = (if b = 237 then 159 else if b = 244 then 143 else 191)"

definition utf8_cont :: "nat \<Rightarrow> bool" where
  "utf8_cont b = (128 \<le> b \<and> b \<le> 191)"

fun utf8_decode :: "nat list \<Rightarrow> nat list option" where
  "utf8_decode [] = Some []"
| "utf8_decode (b # bs) =
     (if b < 128 then map_option ((#) b) (utf8_decode bs)
      else if 194 \<le> b \<and> b \<le> 223 then
        (case bs of
           c1 # r \<Rightarrow>
             if utf8_cont c1
             then map_option ((#) ((b - 192) * 64 + (c1 - 128))) (utf8_decode r)
             else None
         | _ \<Rightarrow> None)
      else if 224 \<le> b \<and> b \<le> 239 then
        (case bs of
           c1 # c2 # r \<Rightarrow>
             if utf8_lo b \<le> c1 \<and> c1 \<le> utf8_hi b \<and> utf8_cont c2
             then map_option ((#) ((b - 224) * 4096 + (c1 - 128) * 64 + (c2 - 128)))
                    (utf8_decode r)
             else None
         | _ \<Rightarrow> None)
      else if 240 \<le> b \<and> b \<le> 244 then
        (case bs of
           c1 # c2 # c3 # r \<Rightarrow>
             if utf8_lo b \<le> c1 \<and> c1 \<le> utf8_hi b \<and> utf8_cont c2 \<and> utf8_cont c3
             then map_option
                    ((#) ((b - 240) * 262144 + (c1 - 128) * 4096 + (c2 - 128) * 64 + (c3 - 128)))
                    (utf8_decode r)
             else None
         | _ \<Rightarrow> None)
      else None)"

definition decode :: "string \<Rightarrow> nat list option" where
  "decode b = utf8_decode (map of_char b)"

text \<open>
  The whitespace of Python's \<^verbatim>\<open>str.strip()\<close>, \<^verbatim>\<open>int()\<close> and of \<^verbatim>\<open>\s\<close> in a \<^verbatim>\<open>str\<close>
  pattern: tab to carriage return, the four separators U+001C to U+001F, space, U+0085,
  U+00A0, U+1680, U+2000 to U+200A, U+2028, U+2029, U+202F, U+205F and U+3000.
\<close>

definition is_space :: "nat \<Rightarrow> bool" where
  "is_space c =
     ((9 \<le> c \<and> c \<le> 13) \<or> (28 \<le> c \<and> c \<le> 32) \<or> c = 133 \<or> c = 160 \<or> c = 5760 \<or>
      (8192 \<le> c \<and> c \<le> 8202) \<or> c = 8232 \<or> c = 8233 \<or> c = 8239 \<or> c = 8287 \<or> c = 12288)"

definition strip :: "nat list \<Rightarrow> nat list" where
  "strip s = rev (dropWhile is_space (rev (dropWhile is_space s)))"

text \<open>
  \<^verbatim>\<open>re.split(r"\s{3,}", line)\<close>. The pattern is greedy, so a separator is a whole maximal
  run of whitespace of length three or more; a shorter run stays inside its piece.
  \<open>acc\<close> is the piece read so far.
\<close>

function split_ws3 :: "nat list \<Rightarrow> nat list \<Rightarrow> nat list list" where
  "split_ws3 acc [] = [acc]"
| "split_ws3 acc (c # cs) =
     (if is_space c then
        (let run = takeWhile is_space (c # cs);
             rest = dropWhile is_space (c # cs)
         in if 3 \<le> length run then acc # split_ws3 [] rest
            else split_ws3 (acc @ run) rest)
      else split_ws3 (acc @ [c]) cs)"
  by pat_completeness auto
termination
proof (relation "measure (\<lambda>(acc, s). length s)")
  show "wf (measure (\<lambda>(acc, s). length s))" by simp
next
  fix acc :: "nat list" and c cs run rest
  assume "is_space c" "rest = dropWhile is_space (c # cs)"
  then have "length rest \<le> length cs" by (simp add: length_dropWhile_le)
  then show "(([], rest), (acc, c # cs)) \<in> measure (\<lambda>(acc, s). length s)" by simp
next
  fix acc :: "nat list" and c cs run rest
  assume "is_space c" "run = takeWhile is_space (c # cs)" "rest = dropWhile is_space (c # cs)"
  then have "length rest \<le> length cs" by (simp add: length_dropWhile_le)
  then show "((acc @ run, rest), (acc, c # cs)) \<in> measure (\<lambda>(acc, s). length s)" by simp
next
  fix acc :: "nat list" and c cs
  show "((acc @ [c], cs), (acc, c # cs)) \<in> measure (\<lambda>(acc, s). length s)" by simp
qed

definition re_split_ws3 :: "nat list \<Rightarrow> nat list list" where
  "re_split_ws3 line = split_ws3 [] line"

subsection \<open>The vote event\<close>

text \<open>
  \<^verbatim>\<open>VoteEvent\<close> comes from the \<^verbatim>\<open>openstates\<close> library. The record has the fields the
  scraper sets; \<open>ve_votes\<close> is the library's list of (option, voter name) entries and
  \<open>ve_counts\<close> its list of (option, value) entries. A URL is \<open>None\<close> when the attribute
  read from the page is absent (Python's \<^verbatim>\<open>None\<close>).
\<close>

record vote_event =
  ve_chamber :: string
  ve_start_date :: string
  ve_motion_text :: "string option"
  ve_result :: string
  ve_classification :: string
  ve_bill :: string
  ve_counts :: "(string \<times> int) list"
  ve_votes :: "(string \<times> nat list) list"
  ve_sources :: "string option list"
  ve_dedupe_key :: "string option"

text \<open>\<^verbatim>\<open>VoteEvent.vote(option, voter)\<close> appends one entry.\<close>

definition vote :: "string \<Rightarrow> nat list \<Rightarrow> vote_event \<Rightarrow> vote_event" where
  "vote opt voter ve = ve\<lparr>ve_votes := ve_votes ve @ [(opt, voter)]\<rparr>"

text \<open>
  The bound methods \<^verbatim>\<open>vote.yes\<close>, \<^verbatim>\<open>vote.no\<close> and \<^verbatim>\<open>vote.vote\<close> that
  \<^verbatim>\<open>current_vfunc\<close> holds. The library declares \<^verbatim>\<open>yes(self, name, *, id=None, note="")\<close>
  and \<^verbatim>\<open>no\<close> alike, both forwarding to \<^verbatim>\<open>vote\<close>, and
  \<^verbatim>\<open>vote(self, option, voter, *, note="")\<close>. A call with one positional argument suits
  \<^verbatim>\<open>yes\<close> and \<^verbatim>\<open>no\<close>; a call with the keywords \<^verbatim>\<open>option\<close> and \<^verbatim>\<open>voter\<close> suits
  \<^verbatim>\<open>vote\<close> only, and Python raises \<^verbatim>\<open>TypeError\<close> for the other combinations.
\<close>

datatype vfunc = Yes | No | Vote

fun call_name :: "vfunc \<Rightarrow> nat list \<Rightarrow> vote_event \<Rightarrow> error + vote_event" where
  "call_name Yes name ve = Inr (vote ''yes'' name ve)"
| "call_name No name ve = Inr (vote ''no'' name ve)"
| "call_name Vote name ve = Inl TypeError"

fun call_option_voter :: "vfunc \<Rightarrow> string \<Rightarrow> nat list \<Rightarrow> vote_event \<Rightarrow> error + vote_event" where
  "call_option_voter Vote opt voter ve = Inr (vote opt voter ve)"
| "call_option_voter Yes opt voter ve = Inl TypeError"
| "call_option_voter No opt voter ve = Inl TypeError"

subsection \<open>The line loop of \<^verbatim>\<open>scrape_rollcall\<close>\<close>

record roll_state =
  current_vfunc :: "vfunc option"
  option_tag :: "string option"
  rs_vote :: vote_event

text \<open>
  The \<^verbatim>\<open>for name in names\<close> loop. \<^verbatim>\<open>if not option\<close> holds for \<^verbatim>\<open>None\<close> and for the
  empty string.
\<close>

fun record_names ::
  "vfunc \<Rightarrow> string option \<Rightarrow> nat list list \<Rightarrow> vote_event \<Rightarrow> error + vote_event" where
  "record_names f opt [] ve = Inr ve"
| "record_names f opt (name # names) ve =
     (if name = [] then record_names f opt names ve
      else
        (case (case opt of
                 None \<Rightarrow> call_name f (strip name) ve
               | Some tag \<Rightarrow>
                   if tag = [] then call_name f (strip name) ve
                   else call_option_voter f tag (strip name) ve) of
           Inl e \<Rightarrow> Inl e
         | Inr ve' \<Rightarrow> record_names f opt names ve'))"

text \<open>One pass of the loop body on a stripped and decoded line.\<close>

definition rollcall_line :: "roll_state \<Rightarrow> nat list \<Rightarrow> error + roll_state" where
  "rollcall_line st line =
     (if startswith line (ustr ''YEAS'') \<or> startswith line (ustr ''AYES'') then
        Inr (st\<lparr>current_vfunc := Some Yes\<rparr>)
      else if startswith line (ustr ''NAYS'') then
        Inr (st\<lparr>current_vfunc := Some No\<rparr>)
      else if startswith line (ustr ''EXCUSED'') then
        Inr (st\<lparr>current_vfunc := Some Vote, option_tag := Some ''excused''\<rparr>)
      else if startswith line (ustr ''NOT VOTING'') then
        Inr (st\<lparr>current_vfunc := Some Vote, option_tag := Some ''excused''\<rparr>)
      else if startswith line (ustr ''ABSTAIN'') then
        Inr (st\<lparr>current_vfunc := Some Vote, option_tag := Some ''excused''\<rparr>)
      else if startswith line (ustr ''PAIRED'') then
        Inr (st\<lparr>current_vfunc := Some Vote, option_tag := Some ''paired''\<rparr>)
      else if line = [] \<or> startswith line (ustr ''Page '') then Inr st
      else
        (case current_vfunc st of
           None \<Rightarrow> Inr st
         | Some f \<Rightarrow>
             (case record_names f (option_tag st) (re_split_ws3 line) (rs_vote st) of
                Inl e \<Rightarrow> Inl e
              | Inr ve \<Rightarrow> Inr (st\<lparr>rs_vote := ve\<rparr>))))"

fun rollcall_lines :: "roll_state \<Rightarrow> string list \<Rightarrow> error + roll_state" where
  "rollcall_lines st [] = Inr st"
| "rollcall_lines st (raw # rest) =
     (case decode (bstrip raw) of
        None \<Rightarrow> Inl UnicodeDecodeError
      | Some line \<Rightarrow>
          (case rollcall_line st line of
             Inl e \<Rightarrow> Inl e
           | Inr st' \<Rightarrow> rollcall_lines st' rest))"

text \<open>
  \<^verbatim>\<open>scrape_rollcall\<close> from the text of the converted document on: \<open>pdflines\<close> is what
  \<^verbatim>\<open>convert_pdf(path, "text")\<close> returned; the result is the vote event with the names
  recorded, or the exception that ended the loop.
\<close>

definition rollcall_text :: "vote_event \<Rightarrow> string \<Rightarrow> error + vote_event" where
  "rollcall_text ve pdflines =
     (case rollcall_lines \<lparr>current_vfunc = None, option_tag = None, rs_vote = ve\<rparr>
             (split_on (CHR 0x0A) pdflines) of
        Inl e \<Rightarrow> Inl e
      | Inr st \<Rightarrow> Inr (rs_vote st))"

text \<open>
  For the statements about the split: \<open>has_ws3 s\<close> holds when three whitespace code
  points stand next to each other somewhere in \<open>s\<close>.
\<close>

fun has_ws3 :: "nat list \<Rightarrow> bool" where
  "has_ws3 (a # b # c # r) = ((is_space a \<and> is_space b \<and> is_space c) \<or> has_ws3 (b # c # r))"
| "has_ws3 r = False"

text \<open>The lines that switch the bucket: those one of the six header branches takes.\<close>

definition is_header :: "nat list \<Rightarrow> bool" where
  "is_header line =
     (startswith line (ustr ''YEAS'') \<or> startswith line (ustr ''AYES'') \<or>
      startswith line (ustr ''NAYS'') \<or> startswith line (ustr ''EXCUSED'') \<or>
      startswith line (ustr ''NOT VOTING'') \<or> startswith line (ustr ''ABSTAIN'') \<or>
      startswith line (ustr ''PAIRED''))"

section \<open>Vote history parser\<close>

subsection \<open>Cells of the listing table\<close>

text \<open>
  What the parser reads from the parsed page: a link has its text and its \<^verbatim>\<open>href\<close>, a
  cell has its text and its child links (\<^verbatim>\<open>xpath("a")\<close>); a row is the list of its
  children. \<open>None\<close> is \<^verbatim>\<open>None\<close>: an element without text, a link without \<^verbatim>\<open>href\<close>.
\<close>

record anchor =
  a_text :: "string option"
  a_href :: "string option"

record td =
  td_text :: "string option"
  td_a :: "anchor list"

subsection \<open>Collaborators\<close>

text \<open>
  The library calls the parser depends on are parameters of the model.
  \<open>strptime\<close> is \<^verbatim>\<open>datetime.datetime.strptime(text, "%m/%d/%Y %H:%M %p")\<close> followed by
  \<^verbatim>\<open>strftime("%Y-%m-%d")\<close>: the date as printed, or \<open>None\<close> when \<^verbatim>\<open>strptime\<close> raises
  \<^verbatim>\<open>ValueError\<close>. \<open>pdf_text\<close> is \<^verbatim>\<open>urlretrieve\<close> followed by \<^verbatim>\<open>convert_pdf(path, "text")\<close>:
  the bytes of the converted roll-call document behind a URL, or the exception raised on
  the way. \<open>int_max_str_digits\<close> is \<^verbatim>\<open>sys.get_int_max_str_digits()\<close>, the interpreter's
  limit on the digits of a number read from a string: 4300 unless configured, 0 when the
  limit is off.
\<close>

record env =
  strptime :: "string \<Rightarrow> string option"
  pdf_text :: "string option \<Rightarrow> error + string"
  int_max_str_digits :: nat

definition scrape_rollcall :: "env \<Rightarrow> vote_event \<Rightarrow> string option \<Rightarrow> error + vote_event" where
  "scrape_rollcall e ve vurl =
     (case pdf_text e vurl of
        Inl err \<Rightarrow> Inl err
      | Inr pdflines \<Rightarrow> rollcall_text ve pdflines)"

subsection \<open>Numbers in cells\<close>

text \<open>
  \<^verbatim>\<open>int(s)\<close> on a string. Whitespace around the number is dropped; for \<^verbatim>\<open>int\<close> this
  is tab to carriage return, space, U+0085 and U+00A0, and not the separators U+001C to
  U+001F that \<^verbatim>\<open>str.strip()\<close> drops too. One sign may lead, and it stands right before
  the digits; the digits may be grouped by single underscores. With the limit \<open>lim\<close> on
  (not 0), a number of more than \<open>lim\<close> digits is refused; the interpreter counts every
  digit, leading zeros too, and applies the limit from 641 digits on. \<open>None\<close> is
  \<^verbatim>\<open>ValueError\<close>.
\<close>

definition is_digit :: "char \<Rightarrow> bool" where
  "is_digit c = (let n = (of_char c :: nat) in 48 \<le> n \<and> n \<le> 57)"

definition digit_val :: "char \<Rightarrow> int" where
  "digit_val c = int (of_char c) - 48"

fun int_digits :: "int \<Rightarrow> bool \<Rightarrow> string \<Rightarrow> int option" where
  "int_digits acc after_digit [] = (if after_digit then Some acc else None)"
| "int_digits acc after_digit (c # cs) =
     (if is_digit c then int_digits (acc * 10 + digit_val c) True cs
      else if c = CHR ''_'' \<and> after_digit then int_digits acc False cs
      else None)"

definition is_int_space :: "char \<Rightarrow> bool" where
  "is_int_space c =
     (let n = (of_char c :: nat) in (9 \<le> n \<and> n \<le> 13) \<or> n = 32 \<or> n = 133 \<or> n = 160)"

definition int_strip :: "string \<Rightarrow> string" where
  "int_strip s = rev (dropWhile is_int_space (rev (dropWhile is_int_space s)))"

definition too_many_digits :: "nat \<Rightarrow> string \<Rightarrow> bool" where
  "too_many_digits lim s =
     (let digits = length (filter is_digit s) in 640 < digits \<and> 0 < lim \<and> lim < digits)"

definition int_body :: "nat \<Rightarrow> string \<Rightarrow> int option" where
  "int_body lim s = (if too_many_digits lim s then None else int_digits 0 False s)"

definition py_int :: "nat \<Rightarrow> string \<Rightarrow> int option" where
  "py_int lim s =
     (case int_strip s of
        [] \<Rightarrow> None
      | c # cs \<Rightarrow>
          if c = CHR ''-'' then map_option uminus (int_body lim cs)
          else if c = CHR ''+'' then int_body lim cs
          else int_body lim (c # cs))"

text \<open>\<^verbatim>\<open>int(cell.text)\<close>: \<^verbatim>\<open>int(None)\<close> raises \<^verbatim>\<open>TypeError\<close>.\<close>

definition cell_int :: "env \<Rightarrow> td \<Rightarrow> error + int" where
  "cell_int e cell =
     (case td_text cell of
        None \<Rightarrow> Inl TypeError
      | Some s \<Rightarrow>
          (case py_int (int_max_str_digits e) s of
             None \<Rightarrow> Inl (ValueError ''invalid literal for int() with base 10'')
           | Some n \<Rightarrow> Inr n))"

subsection \<open>Building the vote event\<close>

text \<open>
  The constructor \<^verbatim>\<open>VoteEvent(chamber=, start_date=, motion_text=, result=,
  classification=, bill=)\<close>, and the library's \<^verbatim>\<open>set_count\<close> (overwrite the entry of the
  option, or append one) and \<^verbatim>\<open>add_source\<close>.
\<close>

definition VoteEvent ::
  "string \<Rightarrow> string \<Rightarrow> string option \<Rightarrow> string \<Rightarrow> string \<Rightarrow> string \<Rightarrow> vote_event" where
  "VoteEvent chamber start_date motion_text result classification bill =
     \<lparr>ve_chamber = chamber, ve_start_date = start_date, ve_motion_text = motion_text,
      ve_result = result, ve_classification = classification, ve_bill = bill,
      ve_counts = [], ve_votes = [], ve_sources = [], ve_dedupe_key = None\<rparr>"

fun set_count_list :: "string \<Rightarrow> int \<Rightarrow> (string \<times> int) list \<Rightarrow> (string \<times> int) list" where
  "set_count_list opt v [] = [(opt, v)]"
| "set_count_list opt v ((o', v') # rest) =
     (if o' = opt then (o', v) # rest else (o', v') # set_count_list opt v rest)"

definition set_count :: "string \<Rightarrow> int \<Rightarrow> vote_event \<Rightarrow> vote_event" where
  "set_count opt v ve = ve\<lparr>ve_counts := set_count_list opt v (ve_counts ve)\<rparr>"

definition add_source :: "string option \<Rightarrow> vote_event \<Rightarrow> vote_event" where
  "add_source url ve = ve\<lparr>ve_sources := ve_sources ve @ [url]\<rparr>"

subsection \<open>One row\<close>

text \<open>
  The scraper object: the set \<^verbatim>\<open>_seen_vote_ids\<close> and the messages passed to
  \<^verbatim>\<open>self.warning\<close>, in order.
\<close>

record scraper =
  seen_vote_ids :: "string option set"
  warnings :: "string list"

text \<open>
  A pass of the loop body ends in one of three ways: an exception leaves the generator,
  \<^verbatim>\<open>continue\<close> goes on to the next row, or a vote event is yielded.
\<close>

datatype row_result = Raise error | Continue scraper | Yield vote_event scraper

definition bind_row :: "error + 'a \<Rightarrow> ('a \<Rightarrow> row_result) \<Rightarrow> row_result" where
  "bind_row r k = (case r of Inl e \<Rightarrow> Raise e | Inr x \<Rightarrow> k x)"

text \<open>
  \<^verbatim>\<open>timestamp.text.replace("\xa0", " ")\<close> and the parse; a cell without text raises
  \<^verbatim>\<open>AttributeError\<close>.
\<close>

definition parse_timestamp :: "env \<Rightarrow> td \<Rightarrow> error + string" where
  "parse_timestamp e cell =
     (case td_text cell of
        None \<Rightarrow> Inl AttributeError
      | Some s \<Rightarrow>
          (case strptime e (map (\<lambda>c. if c = CHR 0xA0 then CHR '' '' else c) s) of
             None \<Rightarrow> Inl (ValueError ''time data does not match format'')
           | Some d \<Rightarrow> Inr d))"

text \<open>\<^verbatim>\<open>vote.xpath("a")[0]\<close>\<close>

definition first_link :: "td \<Rightarrow> error + anchor" where
  "first_link cell = (case td_a cell of [] \<Rightarrow> Inl IndexError | a # _ \<Rightarrow> Inr a)"

text \<open>\<^verbatim>\<open>"[H]" in vote_link.text\<close>; a link without text raises \<^verbatim>\<open>TypeError\<close>.\<close>

definition link_chamber :: "anchor \<Rightarrow> error + string" where
  "link_chamber a =
     (case a_text a of
        None \<Rightarrow> Inl TypeError
      | Some t \<Rightarrow> Inr (if contains t ''[H]'' then ''lower'' else ''upper''))"

text \<open>\<^verbatim>\<open>"%s" % url\<close> inside a log message.\<close>

definition str_of :: "string option \<Rightarrow> string" where
  "str_of u = (case u of None \<Rightarrow> ''None'' | Some s \<Rightarrow> s)"

definition vote_row :: "env \<Rightarrow> string \<Rightarrow> string \<Rightarrow> td list \<Rightarrow> scraper \<Rightarrow> row_result" where
  "vote_row e bill vurl tds self =
     (if length tds \<noteq> 11 then
        Continue (self\<lparr>warnings := warnings self @ [''irregular vote row: '' @ vurl]\<rparr>)
      else
        bind_row (parse_timestamp e (tds ! 0)) (\<lambda>timestamp.
        bind_row (cell_int e (tds ! 3)) (\<lambda>yeas.
        bind_row (cell_int e (tds ! 4)) (\<lambda>nays.
        bind_row (cell_int e (tds ! 5)) (\<lambda>nv.
        bind_row (cell_int e (tds ! 6)) (\<lambda>exc.
        bind_row (cell_int e (tds ! 8)) (\<lambda>abst.
        bind_row (cell_int e (tds ! 7)) (\<lambda>pres.
        let others = nv + exc + abst + pres in
        bind_row (cell_int e (tds ! 9)) (\<lambda>total.
        if yeas + nays + others = total then
          (let passed = (if td_text (tds ! 10) = Some ''Passed'' then ''pass'' else ''fail'') in
           bind_row (first_link (tds ! 2)) (\<lambda>vote_link.
           bind_row (link_chamber vote_link) (\<lambda>chamber.
           let v0 = VoteEvent chamber timestamp (td_text (tds ! 1)) passed ''passage'' bill;
               v1 = set_count ''yes'' yeas v0;
               v2 = set_count ''no'' nays v1;
               v3 = set_count ''other'' others v2;
               v4 = add_source (Some vurl) v3;
               rollcall_pdf = a_href vote_link
           in
           bind_row (scrape_rollcall e v4 rollcall_pdf) (\<lambda>v5.
           let v6 = add_source rollcall_pdf v5 in
           if rollcall_pdf \<in> seen_vote_ids self then
             Continue (self\<lparr>warnings := warnings self @
                         [''duplicate usage of '' @ str_of rollcall_pdf @ '', skipping'']\<rparr>)
           else
             Yield (v6\<lparr>ve_dedupe_key := rollcall_pdf\<rparr>)
                   (self\<lparr>seen_vote_ids := insert rollcall_pdf (seen_vote_ids self)\<rparr>)))))
        else Raise AssertionError)))))))))"

subsection \<open>The row loop and the run\<close>

text \<open>
  The generator \<^verbatim>\<open>scrape_vote_history\<close>: the vote events yielded, the scraper afterwards,
  and the exception that ended it, if one did. What was yielded before an exception stays
  yielded.
\<close>

fun vote_rows ::
  "env \<Rightarrow> string \<Rightarrow> string \<Rightarrow> td list list \<Rightarrow> scraper
     \<Rightarrow> vote_event list \<times> scraper \<times> error option" where
  "vote_rows e bill vurl [] self = ([], self, None)"
| "vote_rows e bill vurl (row # rows) self =
     (case vote_row e bill vurl row self of
        Raise err \<Rightarrow> ([], self, Some err)
      | Continue self' \<Rightarrow> vote_rows e bill vurl rows self'
      | Yield v self' \<Rightarrow>
          (case vote_rows e bill vurl rows self' of
             (vs, self'', err) \<Rightarrow> (v # vs, self'', err)))"

text \<open>\<open>trs\<close> is \<^verbatim>\<open>doc.xpath("//table/tr")\<close>, each row given by its children.\<close>

definition scrape_vote_history ::
  "env \<Rightarrow> string \<Rightarrow> string \<Rightarrow> td list list \<Rightarrow> scraper
     \<Rightarrow> vote_event list \<times> scraper \<times> error option" where
  "scrape_vote_history e bill vurl trs self = vote_rows e bill vurl (drop 2 trs) self"

text \<open>
  One run of \<^verbatim>\<open>scrape\<close>, as far as votes go: \<^verbatim>\<open>self._seen_vote_ids = set()\<close>, then the
  vote history pages of the bills in the order the run reaches them, each a triple of
  the bill, the page URL and the table rows. An exception ends the run.
\<close>

fun vote_pages ::
  "env \<Rightarrow> (string \<times> string \<times> td list list) list \<Rightarrow> scraper
     \<Rightarrow> vote_event list \<times> scraper \<times> error option" where
  "vote_pages e [] self = ([], self, None)"
| "vote_pages e ((bill, vurl, trs) # pages) self =
     (case scrape_vote_history e bill vurl trs self of
        (vs, self', Some err) \<Rightarrow> (vs, self', Some err)
      | (vs, self', None) \<Rightarrow>
          (case vote_pages e pages self' of
             (ws, self'', err) \<Rightarrow> (vs @ ws, self'', err)))"

definition scrape :: "env \<Rightarrow> (string \<times> string \<times> td list list) list \<Rightarrow> scraper
     \<Rightarrow> vote_event list \<times> scraper \<times> error option" where
  "scrape e pages self = vote_pages e pages (self\<lparr>seen_vote_ids := {}\<rparr>)"

subsection \<open>A sample page\<close>

text \<open>
  Data for checking the statements on a concrete run: collaborators that know one
  timestamp and one roll-call document, and a row of eleven cells with two yeas, one nay,
  one excused and the given total.
\<close>

definition sample_env :: env where
  "sample_env =
     \<lparr>strptime = (\<lambda>s. if s = ''01/15/2020 10:30 AM'' then Some ''2020-01-15'' else None),
      pdf_text = (\<lambda>u. if u = Some ''https://www.scstatehouse.gov/votes/1.pdf''
                       then Inr (''YEAS'' @ [CHR 0x0A] @ ''Smith   Jones'' @ [CHR 0x0A] @
                                 ''NAYS'' @ [CHR 0x0A] @ ''Doe'')
                       else Inl (External ''HTTPError'')),
      int_max_str_digits = 4300\<rparr>"

definition cell :: "string \<Rightarrow> td" where
  "cell s = \<lparr>td_text = Some s, td_a = []\<rparr>"

definition sample_row :: "string \<Rightarrow> td list" where
  "sample_row tot =
     [cell ''01/15/2020 10:30 AM'', cell ''Passage of Bill'',
      \<lparr>td_text = None,
       td_a = [\<lparr>a_text = Some ''[S] Roll call'',
                a_href = Some ''https://www.scstatehouse.gov/votes/1.pdf''\<rparr>]\<rparr>,
      cell ''2'', cell ''1'', cell ''0'', cell ''1'', cell ''0'', cell ''0'', cell tot,
      cell ''Passed'']"

definition sample_vote :: vote_event where
  "sample_vote =
     \<lparr>ve_chamber = ''upper'', ve_start_date = ''2020-01-15'',
      ve_motion_text = Some ''Passage of Bill'', ve_result = ''pass'',
      ve_classification = ''passage'', ve_bill = ''S 1'',
      ve_counts = [(''yes'', 2), (''no'', 1), (''other'', 1)],
      ve_votes = [(''yes'', ustr ''Smith''), (''yes'', ustr ''Jones''), (''no'', ustr ''Doe'')],
      ve_sources = [Some ''https://www.scstatehouse.gov/votehistory.php?KEY=1'',
                    Some ''https://www.scstatehouse.gov/votes/1.pdf''],
      ve_dedupe_key = Some ''https://www.scstatehouse.gov/votes/1.pdf''\<rparr>"

section \<open>Facts about the string primitives\<close>

lemma startswith_iff: "startswith s p \<longleftrightarrow> (\<exists>r. s = p @ r)"
  by (induction s p rule: startswith.induct) auto

lemma startswith_append: "startswith (p @ r) p"
  by (simp add: startswith_iff)

lemma contains_iff: "contains s p \<longleftrightarrow> (\<exists>a b. s = a @ p @ b)"
proof (induction s)
  case Nil
  then show ?case by auto
next
  case (Cons c cs)
  show ?case
  proof
    assume "contains (c # cs) p"
    then consider "startswith (c # cs) p" | "contains cs p" by auto
    then show "\<exists>a b. c # cs = a @ p @ b"
    proof cases
      case 1
      then obtain r where "c # cs = p @ r" by (auto simp: startswith_iff)
      then have "c # cs = [] @ p @ r" by simp
      then show ?thesis by blast
    next
      case 2
      with Cons obtain a b where "cs = a @ p @ b" by blast
      then have "c # cs = (c # a) @ p @ b" by simp
      then show ?thesis by blast
    qed
  next
    assume "\<exists>a b. c # cs = a @ p @ b"
    then obtain a b where ab: "c # cs = a @ p @ b" by blast
    show "contains (c # cs) p"
    proof (cases a)
      case Nil
      with ab have "startswith (c # cs) p" by (simp add: startswith_iff)
      then show ?thesis by simp
    next
      case (Cons x a')
      with ab have "cs = a' @ p @ b" by simp
      with Cons.IH have "contains cs p" by blast
      then show ?thesis by simp
    qed
  qed
qed

lemma lower_append: "lower (a @ b) = lower a @ lower b"
  by (simp add: lower_def)

lemma startswith_lower: "startswith s p \<Longrightarrow> startswith (lower s) (lower p)"
  by (auto simp: startswith_iff lower_append)

section \<open>The classifier returns the first matching rule\<close>

lemma action_type_loop_Some:
  "action_type_loop rules a = Some t \<longleftrightarrow>
     (\<exists>i < length rules. startswith (lower a) (lower (fst (rules ! i))) \<and> t = snd (rules ! i) \<and>
        (\<forall>j < i. \<not> startswith (lower a) (lower (fst (rules ! j)))))"
proof (induction rules a rule: action_type_loop.induct)
  case (1 action)
  then show ?case by simp
next
  case (2 prefix atype rest action)
  show ?case
  proof (cases "startswith (lower action) (lower prefix)")
    case True
    have "(\<exists>i < length ((prefix, atype) # rest).
            startswith (lower action) (lower (fst (((prefix, atype) # rest) ! i))) \<and>
            t = snd (((prefix, atype) # rest) ! i) \<and>
            (\<forall>j < i. \<not> startswith (lower action) (lower (fst (((prefix, atype) # rest) ! j)))))
          \<longleftrightarrow> t = atype"
    proof
      assume "\<exists>i < length ((prefix, atype) # rest).
            startswith (lower action) (lower (fst (((prefix, atype) # rest) ! i))) \<and>
            t = snd (((prefix, atype) # rest) ! i) \<and>
            (\<forall>j < i. \<not> startswith (lower action) (lower (fst (((prefix, atype) # rest) ! j))))"
      then obtain i where i: "t = snd (((prefix, atype) # rest) ! i)"
        "\<forall>j < i. \<not> startswith (lower action) (lower (fst (((prefix, atype) # rest) ! j)))"
        by blast
      have "i = 0"
      proof (rule ccontr)
        assume "i \<noteq> 0"
        then have "0 < i" by simp
        with i(2) have "\<not> startswith (lower action) (lower (fst (((prefix, atype) # rest) ! 0)))"
          by blast
        with True show False by simp
      qed
      with i(1) show "t = atype" by simp
    next
      assume "t = atype"
      with True show "\<exists>i < length ((prefix, atype) # rest).
            startswith (lower action) (lower (fst (((prefix, atype) # rest) ! i))) \<and>
            t = snd (((prefix, atype) # rest) ! i) \<and>
            (\<forall>j < i. \<not> startswith (lower action) (lower (fst (((prefix, atype) # rest) ! j))))"
        by (intro exI[of _ 0]) simp
    qed
    with True show ?thesis by auto
  next
    case False
    let ?P = "\<lambda>rs i. startswith (lower action) (lower (fst (rs ! i))) \<and> t = snd (rs ! i) \<and>
        (\<forall>j < i. \<not> startswith (lower action) (lower (fst (rs ! j))))"
    have "(\<exists>i < length ((prefix, atype) # rest). ?P ((prefix, atype) # rest) i)
          \<longleftrightarrow> (\<exists>i < length rest. ?P rest i)"
    proof
      assume "\<exists>i < length ((prefix, atype) # rest). ?P ((prefix, atype) # rest) i"
      then obtain i where i: "i < length ((prefix, atype) # rest)" "?P ((prefix, atype) # rest) i"
        by blast
      from i False have "i \<noteq> 0" by (auto intro: ccontr)
      then obtain k where k: "i = Suc k" by (cases i) auto
      with i have "k < length rest" by simp
      moreover from i k have "startswith (lower action) (lower (fst (rest ! k)))" "t = snd (rest ! k)"
        by simp_all
      moreover have "\<forall>j < k. \<not> startswith (lower action) (lower (fst (rest ! j)))"
      proof (intro allI impI)
        fix j assume "j < k"
        then have "Suc j < i" using k by simp
        with i(2) have "\<not> startswith (lower action) (lower (fst (((prefix, atype) # rest) ! Suc j)))"
          by blast
        then show "\<not> startswith (lower action) (lower (fst (rest ! j)))" by simp
      qed
      ultimately show "\<exists>i < length rest. ?P rest i" by blast
    next
      assume "\<exists>i < length rest. ?P rest i"
      then obtain k where k: "k < length rest" "?P rest k" by blast
      have "\<forall>j < Suc k. \<not> startswith (lower action) (lower (fst (((prefix, atype) # rest) ! j)))"
      proof (intro allI impI)
        fix j assume j: "j < Suc k"
        show "\<not> startswith (lower action) (lower (fst (((prefix, atype) # rest) ! j)))"
        proof (cases j)
          case 0
          with False show ?thesis by simp
        next
          case (Suc m)
          with j have "m < k" by simp
          with k(2) Suc show ?thesis by simp
        qed
      qed
      with k have "Suc k < length ((prefix, atype) # rest) \<and> ?P ((prefix, atype) # rest) (Suc k)"
        by simp
      then show "\<exists>i < length ((prefix, atype) # rest). ?P ((prefix, atype) # rest) i" by blast
    qed
    with False 2 show ?thesis by simp
  qed
qed

lemma action_type_loop_None:
  "action_type_loop rules a = None \<longleftrightarrow>
     (\<forall>r \<in> set rules. \<not> startswith (lower a) (lower (fst r)))"
  by (induction rules a rule: action_type_loop.induct) auto


lemma lower_amended_and_adopted: "lower ''Amended and adopted'' = ''amended and adopted''"
  by code_simp

lemma lower_adopted: "lower ''Adopted'' = ''adopted''"
  by code_simp

lemma amended_and_adopted_first_match:
  assumes "startswith (lower a) (lower ''Amended and adopted'')"
  shows "action_type a = Some (Tags [''passage'', ''amendment-passage''])"
proof -
  from assms obtain r where r: "lower a = ''amended and adopted'' @ r"
    by (auto simp: startswith_iff lower_amended_and_adopted)
  have no: "\<not> startswith (lower a) (lower ''Adopted'')"
    by (simp add: r lower_adopted)
  show ?thesis
    using assms no by (simp add: action_type_def classifiers_def)
qed

text \<open>
  C1. For every action string, \<open>action_type\<close> returns the tag or tags of the first rule
  of the table, in list order, whose prefix the string starts with when both are
  lowercased, and \<open>None\<close> when no prefix matches. A string that starts, in any letter
  case, with "Amended and adopted" gets the tags passage and amendment-passage.
\<close>

theorem action_type_first_prefix:
  "(action_type a = Some t \<longleftrightarrow>
      (\<exists>i < length classifiers.
          startswith (lower a) (lower (fst (classifiers ! i))) \<and> t = snd (classifiers ! i) \<and>
          (\<forall>j < i. \<not> startswith (lower a) (lower (fst (classifiers ! j)))))) \<and>
   (action_type a = None \<longleftrightarrow>
      (\<forall>r \<in> set classifiers. \<not> startswith (lower a) (lower (fst r)))) \<and>
   (startswith (lower a) (lower ''Amended and adopted'') \<longrightarrow>
      action_type a = Some (Tags [''passage'', ''amendment-passage'']))"
  unfolding action_type_def
  using action_type_loop_Some [of classifiers a t] action_type_loop_None [of classifiers a]
    amended_and_adopted_first_match [of a]
  by (simp only: action_type_def) blast

theorem action_type_first_prefix_witness:
  "startswith (lower ''AMENDED and adopted, as amended'') (lower ''Amended and adopted'') \<and>
   action_type ''AMENDED and adopted, as amended'' = Some (Tags [''passage'', ''amendment-passage''])"
proof -
  have h: "startswith (lower ''AMENDED and adopted, as amended'') (lower ''Amended and adopted'')"
    by code_simp
  with action_type_first_prefix [of "''AMENDED and adopted, as amended''"] show ?thesis
    by blast
qed

section \<open>The index page resolver wraps past sessions only\<close>

lemma web_archive_id_nonempty:
  assumes "map_of web_archive_ids k = Some wid"
  shows "wid \<noteq> []"
proof -
  from assms have "(k, wid) \<in> set web_archive_ids" by (rule map_of_SomeD)
  then show ?thesis by (auto simp: web_archive_ids_def)
qed

lemma get_index_url_archived:
  assumes "map_of web_archive_ids (session @ ''-'' @ chamber) = Some wid"
  shows "get_index_url session chamber letter =
           ''https://web.archive.org/web/'' @ wid @ ''/'' @
           ''https://www.scstatehouse.gov/sessphp/'' @ letter @ ''intros.php''"
  using assms web_archive_id_nonempty [OF assms] by (simp add: get_index_url_def)

lemma get_index_url_direct:
  assumes "map_of web_archive_ids (session @ ''-'' @ chamber) = None"
  shows "get_index_url session chamber letter =
           ''https://www.scstatehouse.gov/sessphp/'' @ letter @ ''intros.php''"
  using assms by (simp add: get_index_url_def)

lemma get_index_url_direct_iff:
  "get_index_url session chamber letter =
     ''https://www.scstatehouse.gov/sessphp/'' @ letter @ ''intros.php'' \<longleftrightarrow>
   map_of web_archive_ids (session @ ''-'' @ chamber) = None"
proof (cases "map_of web_archive_ids (session @ ''-'' @ chamber)")
  case None
  then show ?thesis by (simp add: get_index_url_direct)
next
  case (Some wid)
  let ?d = "''https://www.scstatehouse.gov/sessphp/'' @ letter @ ''intros.php''"
  have "length (''https://web.archive.org/web/'' @ wid @ ''/'' @ ?d) \<noteq> length ?d" by simp
  then have "''https://web.archive.org/web/'' @ wid @ ''/'' @ ?d \<noteq> ?d" by metis
  with Some show ?thesis by (simp add: get_index_url_archived [OF Some])
qed

lemma get_index_url_2019_upper:
  "get_index_url ''2019-2020'' ''upper'' ''s'' =
     ''https://web.archive.org/web/20201101152857/https://www.scstatehouse.gov/sessphp/sintros.php''"
  by (simp add: get_index_url_def web_archive_ids_def)

lemma get_index_url_2023_upper:
  "get_index_url ''2023-2024'' ''upper'' ''s'' = ''https://www.scstatehouse.gov/sessphp/sintros.php''"
  by (simp add: get_index_url_def web_archive_ids_def)

lemma get_index_url_2019_upper_contains:
  "contains (get_index_url ''2019-2020'' ''upper'' ''s'') ''20201101152857''"
proof -
  have "get_index_url ''2019-2020'' ''upper'' ''s'' =
          ''https://web.archive.org/web/'' @ ''20201101152857'' @
          ''/https://www.scstatehouse.gov/sessphp/sintros.php''"
    by (simp add: get_index_url_2019_upper)
  then show ?thesis unfolding contains_iff by blast
qed

text \<open>
  C7. \<open>get_index_url\<close> returns the direct index URL behind the archive prefix and the
  snapshot id of the table when the key \<open>session-chamber\<close> is in the table, and the
  direct URL itself exactly when the key is absent. Session 2019-2020, upper chamber,
  gives the archived URL with snapshot id 20201101152857; session 2023-2024, upper
  chamber, gives the direct URL.
\<close>

theorem get_index_url_archived_iff_listed:
  "(\<forall>wid. map_of web_archive_ids (session @ ''-'' @ chamber) = Some wid \<longrightarrow>
      get_index_url session chamber letter =
        ''https://web.archive.org/web/'' @ wid @ ''/'' @
        ''https://www.scstatehouse.gov/sessphp/'' @ letter @ ''intros.php'') \<and>
   (get_index_url session chamber letter =
        ''https://www.scstatehouse.gov/sessphp/'' @ letter @ ''intros.php'' \<longleftrightarrow>
      map_of web_archive_ids (session @ ''-'' @ chamber) = None) \<and>
   get_index_url ''2019-2020'' ''upper'' ''s'' =
     ''https://web.archive.org/web/20201101152857/https://www.scstatehouse.gov/sessphp/sintros.php'' \<and>
   contains (get_index_url ''2019-2020'' ''upper'' ''s'') ''20201101152857'' \<and>
   get_index_url ''2023-2024'' ''upper'' ''s'' = ''https://www.scstatehouse.gov/sessphp/sintros.php''"
  using get_index_url_archived [of session chamber _ letter]
    get_index_url_direct_iff [of session chamber letter]
    get_index_url_2019_upper get_index_url_2023_upper get_index_url_2019_upper_contains
  by blast

theorem get_index_url_archived_iff_listed_witness:
  "map_of web_archive_ids (''2021-2022'' @ ''-'' @ ''lower'') = Some ''20221110101038'' \<and>
   get_index_url ''2021-2022'' ''lower'' ''h'' =
     ''https://web.archive.org/web/20221110101038/https://www.scstatehouse.gov/sessphp/hintros.php''"
proof -
  have h: "map_of web_archive_ids (''2021-2022'' @ ''-'' @ ''lower'') = Some ''20221110101038''"
    by (simp add: web_archive_ids_def)
  from get_index_url_archived_iff_listed [of "''2021-2022''" "''lower''" "''h''"] h
  have "get_index_url ''2021-2022'' ''lower'' ''h'' =
          ''https://web.archive.org/web/'' @ ''20221110101038'' @ ''/'' @
          ''https://www.scstatehouse.gov/sessphp/'' @ ''h'' @ ''intros.php''"
    by blast
  with h show ?thesis by simp
qed

section \<open>Bill types are tested in a fixed order\<close>

lemma contains_suffix_of_pattern:
  assumes "contains s (a @ p)"
  shows "contains s p"
proof -
  from assms obtain x y where "s = x @ (a @ p) @ y" unfolding contains_iff by blast
  then have "s = (x @ a) @ p @ y" by simp
  then show ?thesis unfolding contains_iff by blast
qed

lemma joint_contains_resolution:
  "contains s ''Joint Resolution'' \<Longrightarrow> contains s ''Resolution''"
  using contains_suffix_of_pattern [of s "''Joint ''" "''Resolution''"] by simp

lemma concurrent_contains_resolution:
  "contains s ''Concurrent Resolution'' \<Longrightarrow> contains s ''Resolution''"
  using contains_suffix_of_pattern [of s "''Concurrent ''" "''Resolution''"] by simp

text \<open>
  C4, as stated, fails: a label can hold "Joint Resolution" and an earlier pattern of
  the chain too, and then the earlier pattern decides.
\<close>

theorem bill_type_joint_counterexample:
  "contains ''Concurrent Resolution on a Joint Resolution'' ''Joint Resolution'' \<and>
   scrape_details_bill_type ''Concurrent Resolution on a Joint Resolution''
     = Inr ''concurrent resolution'' \<and>
   scrape_details_bill_type ''Concurrent Resolution on a Joint Resolution''
     \<noteq> Inr ''joint resolution''"
  by (simp add: scrape_details_bill_type_def)

text \<open>
  C4, amended. The label is tested for "General Bill", "Concurrent Resolution",
  "Joint Resolution" and "Resolution" in this order and the first pattern found decides
  between bill, concurrent resolution, joint resolution and resolution. A label with
  "Joint Resolution" and neither "General Bill" nor "Concurrent Resolution" is a joint
  resolution, although it holds "Resolution" as well. A label with none of the four
  patterns raises \<open>ValueError\<close>.
\<close>

theorem bill_type_first_pattern:
  "(contains l ''General Bill'' \<longrightarrow> scrape_details_bill_type l = Inr ''bill'') \<and>
   (\<not> contains l ''General Bill'' \<and> contains l ''Concurrent Resolution'' \<longrightarrow>
      scrape_details_bill_type l = Inr ''concurrent resolution'') \<and>
   (\<not> contains l ''General Bill'' \<and> \<not> contains l ''Concurrent Resolution'' \<and>
    contains l ''Joint Resolution'' \<longrightarrow>
      scrape_details_bill_type l = Inr ''joint resolution'' \<and> contains l ''Resolution'') \<and>
   (\<not> contains l ''General Bill'' \<and> \<not> contains l ''Concurrent Resolution'' \<and>
    \<not> contains l ''Joint Resolution'' \<and> contains l ''Resolution'' \<longrightarrow>
      scrape_details_bill_type l = Inr ''resolution'') \<and>
   (\<not> contains l ''General Bill'' \<and> \<not> contains l ''Resolution'' \<longrightarrow>
      scrape_details_bill_type l = Inl (ValueError (''unknown bill type: '' @ l)))"
  using joint_contains_resolution [of l] concurrent_contains_resolution [of l]
  by (auto simp: scrape_details_bill_type_def)

theorem bill_type_first_pattern_witness:
  "\<not> contains ''Joint Resolution'' ''General Bill'' \<and>
   \<not> contains ''Joint Resolution'' ''Concurrent Resolution'' \<and>
   contains ''Joint Resolution'' ''Joint Resolution'' \<and>
   scrape_details_bill_type ''Joint Resolution'' = Inr ''joint resolution'' \<and>
   contains ''Joint Resolution'' ''Resolution''"
proof -
  have h: "\<not> contains ''Joint Resolution'' ''General Bill''"
    "\<not> contains ''Joint Resolution'' ''Concurrent Resolution''"
    "contains ''Joint Resolution'' ''Joint Resolution''"
    by simp_all
  with bill_type_first_pattern [of "''Joint Resolution''"] show ?thesis by blast
qed

section \<open>The downgrade outlives a failed request\<close>

lemma toggle_restores_on_return:
  assumes "method (downgrade_http_version c) = (Inr response, c')"
  shows "toggle_http_version saved method c = (Inr response, undo_downgrade_http_version saved c')"
  using assms by (simp add: toggle_http_version_def)

text \<open>
  C9. With the settings of the interpreter, HTTP/1.1, saved at import and in force before
  the call, a request that raises leaves \<open>downgraded_http_get\<close> with the settings at
  HTTP/1.0: the wrapper restores them on the normal return only.
\<close>

theorem downgrade_stays_after_raise:
  "downgraded_http_get \<lparr>http_vsn = 11, http_vsn_str = ''HTTP/1.1''\<rparr>
     (\<lambda>url c. (Inl (External ''HTTPError'') :: error + string, c))
     ''https://www.scstatehouse.gov/sessphp/sintros.php''
     \<lparr>http_vsn = 11, http_vsn_str = ''HTTP/1.1''\<rparr>
   = (Inl (External ''HTTPError''), \<lparr>http_vsn = 10, http_vsn_str = ''HTTP/1.0''\<rparr>)"
  by (simp add: downgraded_http_get_def toggle_http_version_def downgrade_http_version_def)


section \<open>The split of a roster line\<close>

lemma has_ws3_takeWhile:
  assumes "3 \<le> length (takeWhile is_space s)"
  shows "has_ws3 s"
proof -
  from assms obtain a b c r where s: "s = a # b # c # r"
    by (cases s rule: has_ws3.cases) (auto split: if_splits)
  with assms have "is_space a \<and> is_space b \<and> is_space c"
    by (auto split: if_splits)
  with s show ?thesis by simp
qed

lemma has_ws3_Cons: "has_ws3 s \<Longrightarrow> has_ws3 (x # s)"
  by (cases s rule: has_ws3.cases) auto

lemma has_ws3_append_left: "has_ws3 s \<Longrightarrow> has_ws3 (p @ s)"
  by (induction p) (auto intro: has_ws3_Cons)

lemma has_ws3_dropWhile: "has_ws3 (dropWhile P s) \<Longrightarrow> has_ws3 s"
  using has_ws3_append_left [of "dropWhile P s" "takeWhile P s"] by simp

lemma split_ws3_no_run: "\<not> has_ws3 p \<Longrightarrow> split_ws3 acc p = [acc @ p]"
proof (induction acc p rule: split_ws3.induct)
  case (1 acc)
  then show ?case by simp
next
  case (2 acc c cs)
  show ?case
  proof (cases "is_space c")
    case False
    from "2.prems" have "\<not> has_ws3 cs" using has_ws3_Cons by blast
    with False "2.IH"(3) show ?thesis by simp
  next
    case True
    let ?run = "takeWhile is_space (c # cs)"
    let ?rest = "dropWhile is_space (c # cs)"
    from "2.prems" have short: "\<not> 3 \<le> length ?run" using has_ws3_takeWhile by blast
    from "2.prems" have "\<not> has_ws3 ?rest" using has_ws3_dropWhile by blast
    with "2.IH"(2) [OF True refl refl short] have "split_ws3 (acc @ ?run) ?rest = [(acc @ ?run) @ ?rest]"
      by simp
    moreover have "split_ws3 acc (c # cs) = split_ws3 (acc @ ?run) ?rest"
      using True short by (simp add: Let_def)
    ultimately show ?thesis by (simp del: takeWhile.simps dropWhile.simps)
  qed
qed

lemma split_ws3_separator:
  assumes "\<not> has_ws3 p" and "p = [] \<or> \<not> is_space (last p)"
    and "list_all is_space sep" and "3 \<le> length sep"
    and "rest = [] \<or> \<not> is_space (hd rest)"
  shows "split_ws3 acc (p @ sep @ rest) = (acc @ p) # split_ws3 [] rest"
  using assms(1,2)
proof (induction "length p" arbitrary: p acc rule: less_induct)
  case less
  from assms(3,5) have tw: "takeWhile is_space (sep @ rest) = sep"
    and dw: "dropWhile is_space (sep @ rest) = rest"
    by (cases rest; simp add: list_all_iff takeWhile_append2 dropWhile_append2)+
  show ?case
  proof (cases p)
    case Nil
    from assms(4) obtain s ss where sep: "sep = s # ss" by (cases sep) auto
    with assms(3) have s: "is_space s" by simp
    have "split_ws3 acc ((s # ss) @ rest) = acc # split_ws3 [] rest"
      using s tw dw assms(4) unfolding sep by (simp add: Let_def)
    with Nil sep show ?thesis by simp
  next
    case (Cons c cs)
    show ?thesis
    proof (cases "is_space c")
      case False
      from less.prems(1) Cons have n: "\<not> has_ws3 cs" using has_ws3_Cons by blast
      from less.prems(2) Cons have l: "cs = [] \<or> \<not> is_space (last cs)" by (auto split: if_splits)
      from less.hyps [OF _ n l, of "acc @ [c]"] Cons False show ?thesis by simp
    next
      case True
      let ?run = "takeWhile is_space p"
      let ?p' = "dropWhile is_space p"
      from less.prems(2) Cons have nl: "\<not> is_space (last p)" by simp
      have p'ne: "?p' \<noteq> []"
      proof
        assume "?p' = []"
        then have "\<forall>x \<in> set p. is_space x" by (simp add: dropWhile_eq_Nil_conv)
        moreover from Cons have "last p \<in> set p" by simp
        ultimately show False using nl by blast
      qed
      then have ex: "\<exists>x \<in> set p. \<not> is_space x" by (auto simp: dropWhile_eq_Nil_conv)
      have hdp: "\<not> is_space (hd ?p')" using p'ne hd_dropWhile by blast
      from ex obtain x where x: "x \<in> set p" "\<not> is_space x" by blast
      have tw2: "takeWhile is_space (p @ sep @ rest) = ?run"
        using x by (rule takeWhile_append1)
      have dw2: "dropWhile is_space (p @ sep @ rest) = ?p' @ sep @ rest"
        using x by (rule dropWhile_append1)
      from less.prems(1) have short: "\<not> 3 \<le> length ?run" using has_ws3_takeWhile by blast
      have step: "split_ws3 acc (p @ sep @ rest) = split_ws3 (acc @ ?run) (?p' @ sep @ rest)"
      proof -
        have "split_ws3 acc (c # (cs @ sep @ rest)) =
                (let run = takeWhile is_space (c # (cs @ sep @ rest));
                     rest' = dropWhile is_space (c # (cs @ sep @ rest))
                 in if 3 \<le> length run then acc # split_ws3 [] rest'
                    else split_ws3 (acc @ run) rest')"
          using True by (simp only: split_ws3.simps if_True)
        moreover have "c # (cs @ sep @ rest) = p @ sep @ rest" using Cons by simp
        ultimately show ?thesis using tw2 dw2 short by (simp only: Let_def if_False)
      qed
      have len: "length ?p' < length p"
        using True Cons length_dropWhile_le [of is_space cs] by simp
      from less.prems(1) have n: "\<not> has_ws3 ?p'" using has_ws3_dropWhile by blast
      have "last ?p' = last p"
        using p'ne by (metis last_appendR takeWhile_dropWhile_id)
      with nl have l: "?p' = [] \<or> \<not> is_space (last ?p')" by simp
      from less.hyps [OF len n l, of "acc @ ?run"]
      have "split_ws3 (acc @ ?run) (?p' @ sep @ rest) = (acc @ ?run @ ?p') # split_ws3 [] rest"
        by simp
      with step show ?thesis by simp
    qed
  qed
qed

section \<open>The roster loop line by line\<close>

lemma record_names_yes:
  "record_names Yes None names ve =
     Inr (ve\<lparr>ve_votes := ve_votes ve @ map (\<lambda>n. (''yes'', strip n)) (filter (\<lambda>n. n \<noteq> []) names)\<rparr>)"
  by (induction names arbitrary: ve) (simp_all add: vote_def)

lemma record_names_no:
  "record_names No None names ve =
     Inr (ve\<lparr>ve_votes := ve_votes ve @ map (\<lambda>n. (''no'', strip n)) (filter (\<lambda>n. n \<noteq> []) names)\<rparr>)"
  by (induction names arbitrary: ve) (simp_all add: vote_def)

lemma record_names_vote:
  "tag \<noteq> [] \<Longrightarrow> record_names Vote (Some tag) names ve =
     Inr (ve\<lparr>ve_votes := ve_votes ve @ map (\<lambda>n. (tag, strip n)) (filter (\<lambda>n. n \<noteq> []) names)\<rparr>)"
  by (induction names arbitrary: ve) (simp_all add: vote_def)

text \<open>A line that no branch of the chain before the name branch takes.\<close>

lemma rollcall_line_names:
  assumes "\<not> startswith line (ustr ''YEAS'')" "\<not> startswith line (ustr ''AYES'')"
    "\<not> startswith line (ustr ''NAYS'')" "\<not> startswith line (ustr ''EXCUSED'')"
    "\<not> startswith line (ustr ''NOT VOTING'')" "\<not> startswith line (ustr ''ABSTAIN'')"
    "\<not> startswith line (ustr ''PAIRED'')" "line \<noteq> []" "\<not> startswith line (ustr ''Page '')"
    and "current_vfunc st = Some f"
  shows "rollcall_line st line =
     (case record_names f (option_tag st) (re_split_ws3 line) (rs_vote st) of
        Inl e \<Rightarrow> Inl e | Inr ve \<Rightarrow> Inr (st\<lparr>rs_vote := ve\<rparr>))"
  using assms by (simp add: rollcall_line_def)

lemma rollcall_line_skip:
  assumes "line = [] \<or> startswith line (ustr ''Page '')"
  shows "rollcall_line st line = Inr st"
proof (cases "line = []")
  case True
  then show ?thesis by (simp add: rollcall_line_def ustr_def)
next
  case False
  with assms obtain r where "line = ustr ''Page '' @ r" by (auto simp: startswith_iff)
  then show ?thesis by (simp add: rollcall_line_def ustr_def)
qed


lemmas roster_eval =
  rollcall_text_def bstrip_def is_bspace_def decode_def rollcall_line_def ustr_def strip_def
  re_split_ws3_def is_space_def vote_def

lemma rollcall_line_recorded:
  assumes "\<not> is_header line" "line \<noteq> []" "\<not> startswith line (ustr ''Page '')"
  shows "current_vfunc st = Some Yes \<Longrightarrow> option_tag st = None \<Longrightarrow>
           rollcall_line st line =
             Inr (st\<lparr>rs_vote := (rs_vote st)\<lparr>ve_votes := ve_votes (rs_vote st) @
               map (\<lambda>n. (''yes'', strip n)) (filter (\<lambda>n. n \<noteq> []) (re_split_ws3 line))\<rparr>\<rparr>)"
    and "current_vfunc st = Some No \<Longrightarrow> option_tag st = None \<Longrightarrow>
           rollcall_line st line =
             Inr (st\<lparr>rs_vote := (rs_vote st)\<lparr>ve_votes := ve_votes (rs_vote st) @
               map (\<lambda>n. (''no'', strip n)) (filter (\<lambda>n. n \<noteq> []) (re_split_ws3 line))\<rparr>\<rparr>)"
    and "current_vfunc st = Some Vote \<Longrightarrow> option_tag st = Some tag \<Longrightarrow> tag \<noteq> [] \<Longrightarrow>
           rollcall_line st line =
             Inr (st\<lparr>rs_vote := (rs_vote st)\<lparr>ve_votes := ve_votes (rs_vote st) @
               map (\<lambda>n. (tag, strip n)) (filter (\<lambda>n. n \<noteq> []) (re_split_ws3 line))\<rparr>\<rparr>)"
proof -
  from assms(1) have nh: "\<not> startswith line (ustr ''YEAS'')" "\<not> startswith line (ustr ''AYES'')"
    "\<not> startswith line (ustr ''NAYS'')" "\<not> startswith line (ustr ''EXCUSED'')"
    "\<not> startswith line (ustr ''NOT VOTING'')" "\<not> startswith line (ustr ''ABSTAIN'')"
    "\<not> startswith line (ustr ''PAIRED'')"
    by (simp_all add: is_header_def)
  note names = rollcall_line_names [OF nh assms(2,3)]
  show "current_vfunc st = Some Yes \<Longrightarrow> option_tag st = None \<Longrightarrow>
           rollcall_line st line =
             Inr (st\<lparr>rs_vote := (rs_vote st)\<lparr>ve_votes := ve_votes (rs_vote st) @
               map (\<lambda>n. (''yes'', strip n)) (filter (\<lambda>n. n \<noteq> []) (re_split_ws3 line))\<rparr>\<rparr>)"
    by (simp add: names record_names_yes)
  show "current_vfunc st = Some No \<Longrightarrow> option_tag st = None \<Longrightarrow>
           rollcall_line st line =
             Inr (st\<lparr>rs_vote := (rs_vote st)\<lparr>ve_votes := ve_votes (rs_vote st) @
               map (\<lambda>n. (''no'', strip n)) (filter (\<lambda>n. n \<noteq> []) (re_split_ws3 line))\<rparr>\<rparr>)"
    by (simp add: names record_names_no)
  show "current_vfunc st = Some Vote \<Longrightarrow> option_tag st = Some tag \<Longrightarrow> tag \<noteq> [] \<Longrightarrow>
           rollcall_line st line =
             Inr (st\<lparr>rs_vote := (rs_vote st)\<lparr>ve_votes := ve_votes (rs_vote st) @
               map (\<lambda>n. (tag, strip n)) (filter (\<lambda>n. n \<noteq> []) (re_split_ws3 line))\<rparr>\<rparr>)"
    by (simp add: names record_names_vote)
qed

lemma roster_example:
  "rollcall_text (VoteEvent c d m r cl b)
     (''YEAS'' @ [CHR 0x0A] @ ''Smith   Jones   Lee'' @ [CHR 0x0A] @ ''NAYS'' @ [CHR 0x0A] @ ''Doe'')
   = Inr ((VoteEvent c d m r cl b)\<lparr>ve_votes :=
       [(''yes'', ustr ''Smith''), (''yes'', ustr ''Jones''), (''yes'', ustr ''Lee''),
        (''no'', ustr ''Doe'')]\<rparr>)"
  by (simp add: roster_eval VoteEvent_def)

text \<open>
  C5. The document with the lines EXCUSED, Smith, YEAS, Jones: after the two headers the
  loop holds the method \<open>yes\<close> together with the tag "excused" that the first header
  set, so the name under YEAS is passed as \<^verbatim>\<open>vote.yes(option="excused", voter="Jones")\<close>,
  which the library rejects with \<open>TypeError\<close>; Jones is not recorded as a yes vote.
\<close>

theorem yeas_after_excused_keeps_tag:
  "rollcall_lines \<lparr>current_vfunc = None, option_tag = None, rs_vote = ve\<rparr> [''EXCUSED'', ''YEAS'']
     = Inr \<lparr>current_vfunc = Some Yes, option_tag = Some ''excused'', rs_vote = ve\<rparr> \<and>
   rollcall_text ve
     (''EXCUSED'' @ [CHR 0x0A] @ ''Smith'' @ [CHR 0x0A] @ ''YEAS'' @ [CHR 0x0A] @ ''Jones'')
     = Inl TypeError"
  by (simp add: roster_eval)

text \<open>
  C6. Three documents on which the loop does not do what is said of it. A line that holds
  only a no-break space (the bytes C2 A0) is blank but not ignored: \<^verbatim>\<open>bytes.strip()\<close>
  leaves it, the piece is tested for emptiness before it is trimmed, and a yes voter with
  the empty name is recorded. Two names three tabs apart, on a line without a space, are
  split, although the comment above the split reads "split names apart by 3 or more
  spaces". After NOT VOTING and then NAYS the tag "excused" is still set, so the name
  under NAYS is passed as \<^verbatim>\<open>vote.no(option="excused", voter="Doe")\<close> and \<open>TypeError\<close> is
  raised instead of a no vote being recorded.
\<close>

theorem blank_line_records_empty_name:
  "decode (bstrip [CHR 0xC2, CHR 0xA0]) = Some [160] \<and> is_space 160 \<and>
   rollcall_text ve (''YEAS'' @ [CHR 0x0A] @ [CHR 0xC2, CHR 0xA0] @ [CHR 0x0A] @ ''Smith'')
     = Inr (ve\<lparr>ve_votes := ve_votes ve @ [(''yes'', []), (''yes'', ustr ''Smith'')]\<rparr>) \<and>
   list_all (\<lambda>c. c \<noteq> CHR '' '') (''Smith'' @ [CHR 0x09, CHR 0x09, CHR 0x09] @ ''Jones'') \<and>
   rollcall_text ve
     (''YEAS'' @ [CHR 0x0A] @ ''Smith'' @ [CHR 0x09, CHR 0x09, CHR 0x09] @ ''Jones'')
     = Inr (ve\<lparr>ve_votes := ve_votes ve @ [(''yes'', ustr ''Smith''), (''yes'', ustr ''Jones'')]\<rparr>) \<and>
   rollcall_text ve
     (''NOT VOTING'' @ [CHR 0x0A] @ ''Smith'' @ [CHR 0x0A] @ ''NAYS'' @ [CHR 0x0A] @ ''Doe'')
     = Inl TypeError"
  by (simp add: roster_eval utf8_cont_def)

section \<open>The roster parser touches the names only\<close>

lemma call_name_votes_only:
  "call_name f n ve = Inr ve' \<Longrightarrow> \<exists>vs. ve' = ve\<lparr>ve_votes := vs\<rparr>"
  by (cases f) (auto simp: vote_def)

lemma call_option_voter_votes_only:
  "call_option_voter f tag n ve = Inr ve' \<Longrightarrow> \<exists>vs. ve' = ve\<lparr>ve_votes := vs\<rparr>"
  by (cases f) (auto simp: vote_def)

lemma record_names_votes_only:
  "record_names f opt names ve = Inr ve' \<Longrightarrow> \<exists>vs. ve' = ve\<lparr>ve_votes := vs\<rparr>"
proof (induction names arbitrary: ve)
  case Nil
  then have "ve' = ve\<lparr>ve_votes := ve_votes ve\<rparr>" by simp
  then show ?case by blast
next
  case (Cons name names)
  show ?case
  proof (cases "name = []")
    case True
    with Cons show ?thesis by simp
  next
    case False
    let ?call = "case opt of
                   None \<Rightarrow> call_name f (strip name) ve
                 | Some tag \<Rightarrow>
                     if tag = [] then call_name f (strip name) ve
                     else call_option_voter f tag (strip name) ve"
    from Cons.prems False obtain ve1 where c: "?call = Inr ve1"
      and r: "record_names f opt names ve1 = Inr ve'"
      by (auto split: sum.splits)
    from c have "\<exists>vs1. ve1 = ve\<lparr>ve_votes := vs1\<rparr>"
      by (auto split: option.splits if_splits
               dest: call_name_votes_only call_option_voter_votes_only)
    then obtain vs1 where "ve1 = ve\<lparr>ve_votes := vs1\<rparr>" by blast
    moreover from Cons.IH [OF r] obtain vs where "ve' = ve1\<lparr>ve_votes := vs\<rparr>" by blast
    ultimately have "ve' = ve\<lparr>ve_votes := vs\<rparr>" by simp
    then show ?thesis by blast
  qed
qed

lemma rollcall_line_header_or_skip:
  assumes "is_header line \<or> line = [] \<or> startswith line (ustr ''Page '') \<or> current_vfunc st = None"
  shows "\<exists>st'. rollcall_line st line = Inr st' \<and> rs_vote st' = rs_vote st"
  unfolding rollcall_line_def using assms by (auto simp: is_header_def)

lemma rollcall_line_votes_only:
  assumes "rollcall_line st line = Inr st'"
  shows "\<exists>vs. rs_vote st' = (rs_vote st)\<lparr>ve_votes := vs\<rparr>"
proof (cases "is_header line \<or> line = [] \<or> startswith line (ustr ''Page '') \<or> current_vfunc st = None")
  case True
  from rollcall_line_header_or_skip [OF True] assms have "rs_vote st' = rs_vote st" by auto
  then have "rs_vote st' = (rs_vote st)\<lparr>ve_votes := ve_votes (rs_vote st)\<rparr>" by simp
  then show ?thesis by blast
next
  case False
  then obtain f where f: "current_vfunc st = Some f" by auto
  from False have nh: "\<not> startswith line (ustr ''YEAS'')" "\<not> startswith line (ustr ''AYES'')"
    "\<not> startswith line (ustr ''NAYS'')" "\<not> startswith line (ustr ''EXCUSED'')"
    "\<not> startswith line (ustr ''NOT VOTING'')" "\<not> startswith line (ustr ''ABSTAIN'')"
    "\<not> startswith line (ustr ''PAIRED'')" "line \<noteq> []" "\<not> startswith line (ustr ''Page '')"
    by (simp_all add: is_header_def)
  from assms rollcall_line_names [OF nh f] obtain ve where
    "record_names f (option_tag st) (re_split_ws3 line) (rs_vote st) = Inr ve"
    "st' = st\<lparr>rs_vote := ve\<rparr>"
    by (auto split: sum.splits)
  with record_names_votes_only show ?thesis by fastforce
qed

lemma rollcall_lines_votes_only:
  "rollcall_lines st raws = Inr st' \<Longrightarrow> \<exists>vs. rs_vote st' = (rs_vote st)\<lparr>ve_votes := vs\<rparr>"
proof (induction raws arbitrary: st)
  case Nil
  then have "rs_vote st' = (rs_vote st)\<lparr>ve_votes := ve_votes (rs_vote st)\<rparr>" by simp
  then show ?case by blast
next
  case (Cons raw raws)
  from Cons.prems obtain line st1 where "rollcall_line st line = Inr st1"
    and r: "rollcall_lines st1 raws = Inr st'"
    by (auto split: option.splits sum.splits)
  then obtain vs1 where "rs_vote st1 = (rs_vote st)\<lparr>ve_votes := vs1\<rparr>"
    using rollcall_line_votes_only by blast
  moreover from Cons.IH [OF r] obtain vs where "rs_vote st' = (rs_vote st1)\<lparr>ve_votes := vs\<rparr>"
    by blast
  ultimately have "rs_vote st' = (rs_vote st)\<lparr>ve_votes := vs\<rparr>" by simp
  then show ?case by blast
qed

lemma scrape_rollcall_votes_only:
  assumes "scrape_rollcall e ve url = Inr ve'"
  shows "\<exists>vs. ve' = ve\<lparr>ve_votes := vs\<rparr>"
proof -
  from assms obtain st' where
    "rollcall_lines \<lparr>current_vfunc = None, option_tag = None, rs_vote = ve\<rparr>
       (split_on (CHR 0x0A) (projr (pdf_text e url))) = Inr st'" and "ve' = rs_vote st'"
    unfolding scrape_rollcall_def rollcall_text_def by (auto split: sum.splits)
  with rollcall_lines_votes_only show ?thesis by fastforce
qed

section \<open>What a yielded row went through\<close>

lemma vote_row_Yield:
  assumes "vote_row e bill vurl tds self = Yield v self'"
  obtains timestamp yeas nays nv exc abst pres total vote_link chamber vs where
    "length tds = 11"
    "parse_timestamp e (tds ! 0) = Inr timestamp"
    "cell_int e (tds ! 3) = Inr yeas" "cell_int e (tds ! 4) = Inr nays"
    "cell_int e (tds ! 5) = Inr nv" "cell_int e (tds ! 6) = Inr exc"
    "cell_int e (tds ! 8) = Inr abst" "cell_int e (tds ! 7) = Inr pres"
    "cell_int e (tds ! 9) = Inr total"
    "yeas + nays + (nv + exc + abst + pres) = total"
    "first_link (tds ! 2) = Inr vote_link"
    "link_chamber vote_link = Inr chamber"
    "\<exists>v5. scrape_rollcall e
       (add_source (Some vurl)
         (set_count ''other'' (nv + exc + abst + pres)
           (set_count ''no'' nays
             (set_count ''yes'' yeas
               (VoteEvent chamber timestamp (td_text (tds ! 1))
                  (if td_text (tds ! 10) = Some ''Passed'' then ''pass'' else ''fail'')
                  ''passage'' bill)))))
       (a_href vote_link) = Inr v5"
    "a_href vote_link \<notin> seen_vote_ids self"
    "self' = self\<lparr>seen_vote_ids := insert (a_href vote_link) (seen_vote_ids self)\<rparr>"
    "v = \<lparr>ve_chamber = chamber, ve_start_date = timestamp, ve_motion_text = td_text (tds ! 1),
          ve_result = (if td_text (tds ! 10) = Some ''Passed'' then ''pass'' else ''fail''),
          ve_classification = ''passage'', ve_bill = bill,
          ve_counts = [(''yes'', yeas), (''no'', nays), (''other'', nv + exc + abst + pres)],
          ve_votes = vs, ve_sources = [Some vurl, a_href vote_link],
          ve_dedupe_key = a_href vote_link\<rparr>"
proof -
  from assms have len: "length tds = 11"
    by (auto simp: vote_row_def split: if_splits)
  from assms len obtain timestamp where ts: "parse_timestamp e (tds ! 0) = Inr timestamp"
    by (cases "parse_timestamp e (tds ! 0)") (auto simp: vote_row_def bind_row_def)
  from assms len ts obtain yeas where y: "cell_int e (tds ! 3) = Inr yeas"
    by (cases "cell_int e (tds ! 3)") (auto simp: vote_row_def bind_row_def)
  from assms len ts y obtain nays where n: "cell_int e (tds ! 4) = Inr nays"
    by (cases "cell_int e (tds ! 4)") (auto simp: vote_row_def bind_row_def)
  from assms len ts y n obtain nv where nv: "cell_int e (tds ! 5) = Inr nv"
    by (cases "cell_int e (tds ! 5)") (auto simp: vote_row_def bind_row_def)
  from assms len ts y n nv obtain exc where exc: "cell_int e (tds ! 6) = Inr exc"
    by (cases "cell_int e (tds ! 6)") (auto simp: vote_row_def bind_row_def)
  from assms len ts y n nv exc obtain abst where abst: "cell_int e (tds ! 8) = Inr abst"
    by (cases "cell_int e (tds ! 8)") (auto simp: vote_row_def bind_row_def)
  from assms len ts y n nv exc abst obtain pres where pres: "cell_int e (tds ! 7) = Inr pres"
    by (cases "cell_int e (tds ! 7)") (auto simp: vote_row_def bind_row_def)
  from assms len ts y n nv exc abst pres obtain total where total: "cell_int e (tds ! 9) = Inr total"
    by (cases "cell_int e (tds ! 9)") (auto simp: vote_row_def bind_row_def Let_def)
  note cells = len ts y n nv exc abst pres total
  from assms cells have sum: "yeas + nays + (nv + exc + abst + pres) = total"
    by (auto simp: vote_row_def bind_row_def Let_def split: if_splits)
  from assms cells sum obtain vote_link where link: "first_link (tds ! 2) = Inr vote_link"
    by (cases "first_link (tds ! 2)") (auto simp: vote_row_def bind_row_def Let_def)
  from assms cells sum link obtain chamber where ch: "link_chamber vote_link = Inr chamber"
    by (cases "link_chamber vote_link") (auto simp: vote_row_def bind_row_def Let_def)
  let ?passed = "if td_text (tds ! 10) = Some ''Passed'' then ''pass'' else ''fail''"
  let ?v4 = "add_source (Some vurl)
               (set_count ''other'' (nv + exc + abst + pres)
                 (set_count ''no'' nays
                   (set_count ''yes'' yeas
                     (VoteEvent chamber timestamp (td_text (tds ! 1)) ?passed ''passage'' bill))))"
  have row: "vote_row e bill vurl tds self =
      bind_row (scrape_rollcall e ?v4 (a_href vote_link)) (\<lambda>v5.
        if a_href vote_link \<in> seen_vote_ids self then
          Continue (self\<lparr>warnings := warnings self @
                      [''duplicate usage of '' @ str_of (a_href vote_link) @ '', skipping'']\<rparr>)
        else
          Yield ((add_source (a_href vote_link) v5)\<lparr>ve_dedupe_key := a_href vote_link\<rparr>)
                (self\<lparr>seen_vote_ids := insert (a_href vote_link) (seen_vote_ids self)\<rparr>))"
    using cells sum link ch by (simp add: vote_row_def bind_row_def Let_def)
  from assms row obtain v5 where v5: "scrape_rollcall e ?v4 (a_href vote_link) = Inr v5"
    by (cases "scrape_rollcall e ?v4 (a_href vote_link)") (auto simp: bind_row_def)
  from assms row v5 have unseen: "a_href vote_link \<notin> seen_vote_ids self"
    and s': "self' = self\<lparr>seen_vote_ids := insert (a_href vote_link) (seen_vote_ids self)\<rparr>"
    and v: "v = (add_source (a_href vote_link) v5)\<lparr>ve_dedupe_key := a_href vote_link\<rparr>"
    by (auto simp: bind_row_def split: if_splits)
  from scrape_rollcall_votes_only [OF v5] obtain vs where "v5 = ?v4\<lparr>ve_votes := vs\<rparr>" by blast
  with v have "v = \<lparr>ve_chamber = chamber, ve_start_date = timestamp,
          ve_motion_text = td_text (tds ! 1), ve_result = ?passed,
          ve_classification = ''passage'', ve_bill = bill,
          ve_counts = [(''yes'', yeas), (''no'', nays), (''other'', nv + exc + abst + pres)],
          ve_votes = vs, ve_sources = [Some vurl, a_href vote_link],
          ve_dedupe_key = a_href vote_link\<rparr>"
    by (simp add: add_source_def set_count_def VoteEvent_def)
  moreover from v5 have "\<exists>v5. scrape_rollcall e ?v4 (a_href vote_link) = Inr v5" by blast
  ultimately show thesis using that cells sum link ch unseen s' by blast
qed


section \<open>Rows of the vote listing\<close>

lemmas row_eval =
  vote_row_def bind_row_def parse_timestamp_def cell_int_def py_int_def int_strip_def
  is_int_space_def too_many_digits_def int_body_def
  is_digit_def digit_val_def first_link_def link_chamber_def scrape_rollcall_def
  VoteEvent_def set_count_def add_source_def sample_env_def sample_row_def cell_def
  sample_vote_def str_of_def Let_def

lemma vote_row_irregular:
  "length tds \<noteq> 11 \<Longrightarrow>
     vote_row e bill vurl tds self =
       Continue (self\<lparr>warnings := warnings self @ [''irregular vote row: '' @ vurl]\<rparr>)"
  by (simp add: vote_row_def)

lemma vote_row_mismatch:
  assumes "length tds = 11"
    and "cell_int e (tds ! 3) = Inr yeas" "cell_int e (tds ! 4) = Inr nays"
    and "cell_int e (tds ! 5) = Inr nv" "cell_int e (tds ! 6) = Inr exc"
    and "cell_int e (tds ! 7) = Inr pres" "cell_int e (tds ! 8) = Inr abst"
    and "cell_int e (tds ! 9) = Inr tot"
    and "yeas + nays + (nv + exc + abst + pres) \<noteq> tot"
  shows "vote_row e bill vurl tds self =
           (case parse_timestamp e (tds ! 0) of Inl err \<Rightarrow> Raise err | Inr ts \<Rightarrow> Raise AssertionError)"
  using assms by (simp add: vote_row_def bind_row_def Let_def split: sum.splits)



section \<open>The loops keep the document URLs apart\<close>



section \<open>Properties of every yielded vote event\<close>

lemma vote_rows_all:
  assumes "\<And>tds self v self'. vote_row e bill vurl tds self = Yield v self' \<Longrightarrow> P v"
  shows "list_all P (fst (vote_rows e bill vurl rows self))"
proof (induction rows arbitrary: self)
  case Nil
  show ?case by simp
next
  case (Cons row rows)
  show ?case
  proof (cases "vote_row e bill vurl row self")
    case (Raise x)
    then show ?thesis by simp
  next
    case (Continue s)
    with Cons [of s] show ?thesis by simp
  next
    case (Yield v s)
    with assms have "P v" by blast
    moreover obtain ws s2 err2 where rest: "vote_rows e bill vurl rows s = (ws, s2, err2)"
      by (cases "vote_rows e bill vurl rows s") auto
    ultimately show ?thesis using Yield Cons [of s] by simp
  qed
qed

lemma vote_pages_all:
  assumes "\<And>bill vurl tds self v self'. vote_row e bill vurl tds self = Yield v self' \<Longrightarrow> P v"
  shows "list_all P (fst (vote_pages e pages self))"
proof (induction pages arbitrary: self)
  case Nil
  show ?case by simp
next
  case (Cons page pages)
  obtain bill vurl trs where page: "page = (bill, vurl, trs)" by (cases page) auto
  obtain us s1 err1 where first: "scrape_vote_history e bill vurl trs self = (us, s1, err1)"
    by (cases "scrape_vote_history e bill vurl trs self") auto
  have "list_all P (fst (vote_rows e bill vurl (drop 2 trs) self))"
    using assms by (rule vote_rows_all)
  with first have us: "list_all P us" by (simp add: scrape_vote_history_def)
  show ?case
  proof (cases err1)
    case (Some x)
    with page first us show ?thesis by simp
  next
    case None
    obtain ws s2 err2 where rest: "vote_pages e pages s1 = (ws, s2, err2)"
      by (cases "vote_pages e pages s1") auto
    with None page first us Cons [of s1] show ?thesis by simp
  qed
qed


section \<open>The sample page, evaluated\<close>

lemma sample_row_yielded:
  "vote_row sample_env ''S 1'' ''https://www.scstatehouse.gov/votehistory.php?KEY=1''
     (sample_row ''4'') \<lparr>seen_vote_ids = {}, warnings = w\<rparr>
   = Yield sample_vote
       \<lparr>seen_vote_ids = {Some ''https://www.scstatehouse.gov/votes/1.pdf''}, warnings = w\<rparr>"
  by (simp add: row_eval roster_eval)


lemma sample_cells:
  "length (sample_row t) = 11"
  "cell_int sample_env (sample_row t ! 3) = Inr 2" "cell_int sample_env (sample_row t ! 4) = Inr 1"
  "cell_int sample_env (sample_row t ! 5) = Inr 0" "cell_int sample_env (sample_row t ! 6) = Inr 1"
  "cell_int sample_env (sample_row t ! 7) = Inr 0" "cell_int sample_env (sample_row t ! 8) = Inr 0"
  "parse_timestamp sample_env (sample_row t ! 0) = Inr ''2020-01-15''"
  "first_link (sample_row t ! 2) =
     Inr \<lparr>a_text = Some ''[S] Roll call'',
          a_href = Some ''https://www.scstatehouse.gov/votes/1.pdf''\<rparr>"
  by (simp_all add: row_eval)

lemma sample_total: "cell_int sample_env (sample_row ''5'' ! 9) = Inr 5"
  by (simp add: row_eval)

text \<open>
  \<^verbatim>\<open>int\<close> drops a no-break space around the digits, refuses the separator U+001C and
  a sign that is apart from its digits.
\<close>

lemma cell_int_whitespace:
  "cell_int sample_env (cell ([CHR 0xA0] @ ''12_3'' @ [CHR 0x09])) = Inr 123"
  "cell_int sample_env (cell ([CHR 0x1C] @ ''2'')) =
     Inl (ValueError ''invalid literal for int() with base 10'')"
  "cell_int sample_env (cell ''- 2'') =
     Inl (ValueError ''invalid literal for int() with base 10'')"
  by (simp_all add: row_eval)

section \<open>Claims about the vote history parser\<close>

text \<open>
  C2. A row that is yielded has parsed its seven count cells; the vote event carries the
  yes and no counts and, as the other count, the sum of the not-voting, excused, abstain
  and present cells, and yes + no + other equals the reported total. A row of eleven
  cells whose counts parse and do not add up to the total ends the generator with an
  exception, nothing is yielded for it or after it; the exception is \<open>AssertionError\<close>
  whenever the timestamp before it parsed.
\<close>

theorem vote_counts_add_up:
  "(vote_row e bill vurl tds self = Yield v self' \<longrightarrow>
      (\<exists>y n nv' exc' pres' abst' t.
          cell_int e (tds ! 3) = Inr y \<and> cell_int e (tds ! 4) = Inr n \<and>
          cell_int e (tds ! 5) = Inr nv' \<and> cell_int e (tds ! 6) = Inr exc' \<and>
          cell_int e (tds ! 7) = Inr pres' \<and> cell_int e (tds ! 8) = Inr abst' \<and>
          cell_int e (tds ! 9) = Inr t \<and>
          ve_counts v = [(''yes'', y), (''no'', n), (''other'', nv' + exc' + abst' + pres')] \<and>
          y + n + (nv' + exc' + abst' + pres') = t)) \<and>
   (length tds = 11 \<and>
    cell_int e (tds ! 3) = Inr yeas \<and> cell_int e (tds ! 4) = Inr nays \<and>
    cell_int e (tds ! 5) = Inr nv \<and> cell_int e (tds ! 6) = Inr exc \<and>
    cell_int e (tds ! 7) = Inr pres \<and> cell_int e (tds ! 8) = Inr abst \<and>
    cell_int e (tds ! 9) = Inr tot \<and>
    yeas + nays + (nv + exc + abst + pres) \<noteq> tot \<longrightarrow>
      (\<exists>err. vote_row e bill vurl tds self = Raise err \<and>
             vote_rows e bill vurl (tds # rows) self = ([], self, Some err)) \<and>
      (\<forall>ts. parse_timestamp e (tds ! 0) = Inr ts \<longrightarrow>
             vote_row e bill vurl tds self = Raise AssertionError))"
proof (intro conjI impI)
  assume "vote_row e bill vurl tds self = Yield v self'"
  then show "\<exists>y n nv' exc' pres' abst' t.
          cell_int e (tds ! 3) = Inr y \<and> cell_int e (tds ! 4) = Inr n \<and>
          cell_int e (tds ! 5) = Inr nv' \<and> cell_int e (tds ! 6) = Inr exc' \<and>
          cell_int e (tds ! 7) = Inr pres' \<and> cell_int e (tds ! 8) = Inr abst' \<and>
          cell_int e (tds ! 9) = Inr t \<and>
          ve_counts v = [(''yes'', y), (''no'', n), (''other'', nv' + exc' + abst' + pres')] \<and>
          y + n + (nv' + exc' + abst' + pres') = t"
    by (rule vote_row_Yield) simp
next
  assume h: "length tds = 11 \<and>
    cell_int e (tds ! 3) = Inr yeas \<and> cell_int e (tds ! 4) = Inr nays \<and>
    cell_int e (tds ! 5) = Inr nv \<and> cell_int e (tds ! 6) = Inr exc \<and>
    cell_int e (tds ! 7) = Inr pres \<and> cell_int e (tds ! 8) = Inr abst \<and>
    cell_int e (tds ! 9) = Inr tot \<and>
    yeas + nays + (nv + exc + abst + pres) \<noteq> tot"
  then have row: "vote_row e bill vurl tds self =
      (case parse_timestamp e (tds ! 0) of Inl err \<Rightarrow> Raise err | Inr ts \<Rightarrow> Raise AssertionError)"
    using vote_row_mismatch [of tds e yeas nays nv exc pres abst tot bill vurl self] by blast
  show "\<exists>err. vote_row e bill vurl tds self = Raise err \<and>
             vote_rows e bill vurl (tds # rows) self = ([], self, Some err)"
    by (cases "parse_timestamp e (tds ! 0)") (simp_all add: row)
  show "\<forall>ts. parse_timestamp e (tds ! 0) = Inr ts \<longrightarrow>
             vote_row e bill vurl tds self = Raise AssertionError"
    by (simp add: row)
qed

theorem vote_counts_add_up_witness:
  "vote_row sample_env ''S 1'' ''https://www.scstatehouse.gov/votehistory.php?KEY=1''
     (sample_row ''5'') \<lparr>seen_vote_ids = {}, warnings = []\<rparr> = Raise AssertionError \<and>
   vote_row sample_env ''S 1'' ''https://www.scstatehouse.gov/votehistory.php?KEY=1''
     (sample_row ''4'') \<lparr>seen_vote_ids = {}, warnings = []\<rparr>
     = Yield sample_vote
         \<lparr>seen_vote_ids = {Some ''https://www.scstatehouse.gov/votes/1.pdf''}, warnings = []\<rparr> \<and>
   ve_counts sample_vote = [(''yes'', 2), (''no'', 1), (''other'', 0 + 1 + 0 + 0)] \<and>
   (2::int) + 1 + (0 + 1 + 0 + 0) = 4"
proof -
  let ?vurl = "''https://www.scstatehouse.gov/votehistory.php?KEY=1''"
  let ?s = "\<lparr>seen_vote_ids = {}, warnings = []\<rparr>"
  have "(2::int) + 1 + (0 + 1 + 0 + 0) \<noteq> 5" by simp
  with sample_cells [of "''5''"] sample_total
    vote_counts_add_up [of sample_env "''S 1''" ?vurl "sample_row ''5''" ?s _ _ 2 1 0 1 0 0 5]
  have "vote_row sample_env ''S 1'' ?vurl (sample_row ''5'') ?s = Raise AssertionError"
    by blast
  moreover have "vote_row sample_env ''S 1'' ?vurl (sample_row ''4'') ?s
      = Yield sample_vote
          \<lparr>seen_vote_ids = {Some ''https://www.scstatehouse.gov/votes/1.pdf''}, warnings = []\<rparr>"
    by (rule sample_row_yielded)
  ultimately show ?thesis by (simp add: sample_vote_def)
qed

text \<open>
  C8. The first two rows of the table are not looked at: whatever they hold, the rows
  after them are processed, and a table of at most two rows yields nothing. A later row
  whose number of cells is not 11 yields no vote event and raises nothing; the warning
  "irregular vote row" with the page URL is logged and the loop goes on with the next
  row.
\<close>

theorem irregular_rows_are_skipped:
  "scrape_vote_history e bill vurl (h1 # h2 # rows) self = vote_rows e bill vurl rows self \<and>
   (length trs \<le> 2 \<longrightarrow> scrape_vote_history e bill vurl trs self = ([], self, None)) \<and>
   (length tds \<noteq> 11 \<longrightarrow>
      vote_row e bill vurl tds self =
        Continue (self\<lparr>warnings := warnings self @ [''irregular vote row: '' @ vurl]\<rparr>) \<and>
      vote_rows e bill vurl (tds # rows) self =
        vote_rows e bill vurl rows
          (self\<lparr>warnings := warnings self @ [''irregular vote row: '' @ vurl]\<rparr>))"
  by (simp add: scrape_vote_history_def vote_row_irregular)

theorem irregular_rows_are_skipped_witness:
  "scrape_vote_history sample_env ''S 1'' ''https://www.scstatehouse.gov/votehistory.php?KEY=1''
     [[cell ''Date''], [], [cell ''irregular''], sample_row ''4'']
     \<lparr>seen_vote_ids = {}, warnings = []\<rparr>
   = ([sample_vote],
      \<lparr>seen_vote_ids = {Some ''https://www.scstatehouse.gov/votes/1.pdf''},
       warnings = [''irregular vote row: https://www.scstatehouse.gov/votehistory.php?KEY=1'']\<rparr>,
      None)"
proof -
  let ?vurl = "''https://www.scstatehouse.gov/votehistory.php?KEY=1''"
  let ?s = "\<lparr>seen_vote_ids = {}, warnings = []\<rparr>"
  have len: "length [cell ''irregular''] \<noteq> 11" by simp
  from irregular_rows_are_skipped
    [of sample_env "''S 1''" ?vurl "[cell ''Date'']" "[]" "[[cell ''irregular''], sample_row ''4'']" ?s]
  have "scrape_vote_history sample_env ''S 1'' ?vurl
          [[cell ''Date''], [], [cell ''irregular''], sample_row ''4''] ?s
        = vote_rows sample_env ''S 1'' ?vurl [[cell ''irregular''], sample_row ''4''] ?s"
    by blast
  also from len irregular_rows_are_skipped
    [of sample_env "''S 1''" ?vurl _ _ "[sample_row ''4'']" ?s _ "[cell ''irregular'']"]
  have "\<dots> = vote_rows sample_env ''S 1'' ?vurl [sample_row ''4'']
                (?s\<lparr>warnings := warnings ?s @ [''irregular vote row: '' @ ?vurl]\<rparr>)"
    by blast
  also have "\<dots> = ([sample_vote],
      \<lparr>seen_vote_ids = {Some ''https://www.scstatehouse.gov/votes/1.pdf''},
       warnings = [''irregular vote row: https://www.scstatehouse.gov/votehistory.php?KEY=1'']\<rparr>,
      None)"
    by (simp add: sample_row_yielded)
  finally show ?thesis .
qed

text \<open>
  C10. Every vote event a row yields, and so every vote event of a vote history page and
  of a whole run, has the classification "passage".
\<close>

theorem yielded_votes_are_passage:
  "(vote_row e bill vurl tds self = Yield v self' \<longrightarrow> ve_classification v = ''passage'') \<and>
   list_all (\<lambda>v. ve_classification v = ''passage'')
     (fst (scrape_vote_history e bill vurl trs self)) \<and>
   list_all (\<lambda>v. ve_classification v = ''passage'') (fst (scrape e pages self))"
proof -
  have row: "ve_classification v = ''passage''"
    if "vote_row e bill vurl tds self = Yield v self'" for bill vurl tds self v self'
    using that by (rule vote_row_Yield) simp
  have "list_all (\<lambda>v. ve_classification v = ''passage'')
          (fst (vote_rows e bill vurl (drop 2 trs) self))"
    by (rule vote_rows_all) (rule row)
  moreover have "list_all (\<lambda>v. ve_classification v = ''passage'')
          (fst (vote_pages e pages (self\<lparr>seen_vote_ids := {}\<rparr>)))"
    by (rule vote_pages_all) (rule row)
  ultimately show ?thesis using row [of bill vurl tds self v self']
    by (simp add: scrape_vote_history_def scrape_def)
qed

theorem yielded_votes_are_passage_witness:
  "vote_row sample_env ''S 1'' ''https://www.scstatehouse.gov/votehistory.php?KEY=1''
     (sample_row ''4'') \<lparr>seen_vote_ids = {}, warnings = []\<rparr>
     = Yield sample_vote
         \<lparr>seen_vote_ids = {Some ''https://www.scstatehouse.gov/votes/1.pdf''}, warnings = []\<rparr> \<and>
   ve_classification sample_vote = ''passage''"
  using sample_row_yielded [of "[]"]
    yielded_votes_are_passage [of sample_env "''S 1''"
      "''https://www.scstatehouse.gov/votehistory.php?KEY=1''" "sample_row ''4''"
      "\<lparr>seen_vote_ids = {}, warnings = []\<rparr>" sample_vote
      "\<lparr>seen_vote_ids = {Some ''https://www.scstatehouse.gov/votes/1.pdf''}, warnings = []\<rparr>"]
  by blast




end
